theory Spec2Isabelle
  imports Main "HOL-Library.Sublist"
begin

section \<open>Python strings\<close>

text \<open>
  A Python \<^verbatim>\<open>str\<close> is a sequence of Unicode code points; it is modelled as a list of
  natural numbers, so that \<^verbatim>\<open>len\<close> is \<^const>\<open>length\<close>. The literals of the source
  are written as Isabelle strings and mapped to their code points by \<open>str\<close>; the
  two characters of the source beyond ASCII (U+2713 and U+2717) are written as the
  numbers 10003 and 10007. A literal that spans several lines is written as the list of
  its lines joined by the newline character, which is the same string. The test \<^verbatim>\<open>p in s\<close> on strings is \<^term>\<open>sublist p s\<close>, and
  \<^verbatim>\<open>s.startswith(p)\<close> is \<^term>\<open>prefix p s\<close>.
\<close>

type_synonym pystr = "nat list"

definition str :: "string \<Rightarrow> pystr" where
  "str s = map of_char s"

definition nl :: nat where
  "nl = 10"

definition is_space :: "nat \<Rightarrow> bool" where
  \<comment> \<open>the code points that \<^verbatim>\<open>str.strip()\<close> and \<^verbatim>\<open>str.lstrip()\<close> remove\<close>
  "is_space c \<longleftrightarrow>
     c \<in> {9, 10, 11, 12, 13, 28, 29, 30, 31, 32, 133, 160, 5760,
          8232, 8233, 8239, 8287, 12288} \<or> (8192 \<le> c \<and> c \<le> 8202)"

definition lstrip :: "pystr \<Rightarrow> pystr" where
  "lstrip s = dropWhile is_space s"

definition rstrip :: "pystr \<Rightarrow> pystr" where
  "rstrip s = rev (dropWhile is_space (rev s))"

definition strip :: "pystr \<Rightarrow> pystr" where
  "strip s = rstrip (lstrip s)"

definition indent_width :: "pystr \<Rightarrow> nat" where
  \<comment> \<open>\<^verbatim>\<open>len(line) - len(line.lstrip())\<close>\<close>
  "indent_width line = length line - length (lstrip line)"

fun split_nl :: "pystr \<Rightarrow> pystr list" where
  \<comment> \<open>\<^verbatim>\<open>s.split('\n')\<close>\<close>
  "split_nl [] = [[]]"
| "split_nl (c # cs) =
     (if c = nl then [] # split_nl cs
      else (case split_nl cs of [] \<Rightarrow> [[c]] | l # ls \<Rightarrow> (c # l) # ls))"

fun join_nl :: "pystr list \<Rightarrow> pystr" where
  \<comment> \<open>\<^verbatim>\<open>'\n'.join(lines)\<close>\<close>
  "join_nl [] = []"
| "join_nl [l] = l"
| "join_nl (l # m # ls) = l @ nl # join_nl (m # ls)"

function replace :: "pystr \<Rightarrow> pystr \<Rightarrow> pystr \<Rightarrow> pystr" where
  \<comment> \<open>\<^verbatim>\<open>s.replace(old, new)\<close>: every occurrence, left to right, without overlap\<close>
  "replace old new s =
     (if old = [] then new @ concat (map (\<lambda>c. c # new) s)
      else if s = [] then []
      else if prefix old s then new @ replace old new (drop (length old) s)
      else hd s # replace old new (tl s))"
  by pat_completeness auto
termination
  by (relation "measure (\<lambda>(old, new, s). length s)") auto

declare replace.simps [simp del]

fun occurrences :: "pystr \<Rightarrow> pystr \<Rightarrow> nat" where
  \<comment> \<open>the number of positions of \<open>s\<close> at which \<open>p\<close> occurs\<close>
  "occurrences p [] = (if p = [] then 1 else 0)"
| "occurrences p (c # cs) = (if prefix p (c # cs) then 1 else 0) + occurrences p cs"

section \<open>The three patches on file text\<close>

datatype patch_outcome = FILE_MISSING | ALREADY_APPLIED | PATTERN_NOT_FOUND | APPLIED

text \<open>
  The source's patch methods return a boolean and print a line that tells the four
  exits apart; \<open>patch_outcome\<close> names the exit taken and \<open>returned\<close> is the boolean.
\<close>

fun returned :: "patch_outcome \<Rightarrow> bool" where
  "returned FILE_MISSING = False"
| "returned ALREADY_APPLIED = True"
| "returned PATTERN_NOT_FOUND = False"
| "returned APPLIED = True"

definition triple_quote :: pystr where
  \<open>triple_quote = str ''"""''\<close>

subsection \<open>\<^verbatim>\<open>patch_mavlink_header\<close>\<close>

definition pack_marker :: pystr where
  "pack_marker = str ''# PYHULA_PATCH_APPLIED''"

definition pack_signature :: pystr where
  "pack_signature = str ''def pack(self, force_mavlink1=False):''"

definition original_pack_pattern :: pystr where
  \<open>original_pack_pattern = join_nl
      [str ''    def pack(self, force_mavlink1=False):'',
       str ''        """'',
       str ''        pack the MAVLink header into a byte string'',
       str ''        """'',
       str ''        '']\<close>

definition fixed_pack_code :: pystr where
  \<open>fixed_pack_code = join_nl
      [str ''    def pack(self, force_mavlink1=False):'',
       str ''        """'',
       str ''        pack the MAVLink header into a byte string'',
       str ''        """'',
       str ''        # PYHULA_PATCH_APPLIED: Fix struct packing with proper integer conversion'',
       str ''        try:'',
       str ''            # Ensure all values are proper integers'',
       str ''            magic = int(self.magic) if hasattr(self, 'magic') else 254'',
       str ''            length = int(self.length) if hasattr(self, 'length') else 0'',
       str ''            seq = int(self.seq) if hasattr(self, 'seq') else 0'',
       str ''            srcSystem = int(self.srcSystem) if hasattr(self, 'srcSystem') else 255'',
       str ''            srcComponent = int(self.srcComponent) if hasattr(self, 'srcComponent') else 190'',
       str ''            msgId = int(self.msgId) if hasattr(self, 'msgId') else 0'',
       str ''            '',
       str ''            return struct.pack('<BBBBBB', magic, length, seq, srcSystem, srcComponent, msgId)'',
       str ''        except (ValueError, TypeError) as e:'',
       str ''            # Fallback with default values if conversion fails'',
       str ''            print(f"MAVLink header pack warning: {e}, using defaults")'',
       str ''            return struct.pack('<BBBBBB', 254, 0, 0, 255, 190, 0)'',
       str ''        '']\<close>

fun pack_loop :: "pystr list \<Rightarrow> bool \<Rightarrow> nat \<Rightarrow> pystr list \<Rightarrow> pystr list" where
  \<comment> \<open>the \<^verbatim>\<open>for line in lines\<close> loop, with its variables
      \<^verbatim>\<open>in_pack_method\<close>, \<^verbatim>\<open>indent_level\<close> and \<^verbatim>\<open>new_lines\<close>\<close>
  "pack_loop [] in_pack_method indent_level new_lines = new_lines"
| "pack_loop (line # lines) in_pack_method indent_level new_lines =
     (if sublist pack_signature line
      then pack_loop lines True (indent_width line) (new_lines @ split_nl fixed_pack_code)
      else if in_pack_method
      then (if strip line \<noteq> [] \<and> indent_width line \<le> indent_level
               \<and> \<not> prefix triple_quote (strip line)
            then pack_loop lines False indent_level (new_lines @ [line])
            else pack_loop lines in_pack_method indent_level new_lines)
      else pack_loop lines in_pack_method indent_level (new_lines @ [line]))"

definition patch_mavlink_text :: "pystr \<Rightarrow> patch_outcome \<times> pystr option" where
  \<comment> \<open>what \<^verbatim>\<open>patch_mavlink_header\<close> does with the text it has read: the exit taken
      and the text it writes back, if any\<close>
  "patch_mavlink_text content =
     (if sublist pack_marker content then (ALREADY_APPLIED, None)
      else if sublist original_pack_pattern content
      then (APPLIED, Some (join_nl (pack_loop (split_nl content) False 0 [])))
      else (PATTERN_NOT_FOUND, None))"

subsection \<open>\<^verbatim>\<open>patch_udp_binding\<close>\<close>

definition udp_marker :: pystr where
  "udp_marker = str ''# PYHULA_UDP_PATCH_APPLIED''"

definition udp_bind_patterns :: "pystr list" where
  \<open>udp_bind_patterns =
    [str (''self.sock.bind(('' @ [CHR 0x27, CHR 0x27] @ '', self.listen_port))''),
     str (''self.sock.bind(("", self.listen_port))''),
     str (''sock.bind(('' @ [CHR 0x27, CHR 0x27] @ '', port))''),
     str (''sock.bind(("", port))'')]\<close>

definition robust_bind :: "pystr \<Rightarrow> pystr" where
  \<comment> \<open>the f-string of the source, \<^verbatim>\<open>{pattern}\<close> filled in\<close>
  \<open>robust_bind pattern = join_nl
      [str ''# PYHULA_UDP_PATCH_APPLIED: Robust UDP binding'',
       str ''        try:'',
       str ''            '' @ pattern,
       str ''        except OSError as e:'',
       str ''            if e.winerror == 10049:  # Address not valid'',
       str ''                # Try binding to localhost instead'',
       str ''                try:'',
       str ''                    self.sock.bind(('127.0.0.1', self.listen_port))'',
       str ''                    print(f"UDP bound to localhost:{self.listen_port} (fallback)")'',
       str ''                except:'',
       str ''                    # Try any available port'',
       str ''                    self.sock.bind(('127.0.0.1', 0))'',
       str ''                    print(f"UDP bound to localhost:{self.sock.getsockname()[1]} (auto-assigned)")'',
       str ''            else:'',
       str ''                raise e'']\<close>

fun udp_loop :: "pystr list \<Rightarrow> pystr \<Rightarrow> pystr option" where
  \<comment> \<open>the \<^verbatim>\<open>for pattern in udp_bind_patterns\<close> loop with its \<^verbatim>\<open>break\<close>;
      \<open>None\<close> is \<^verbatim>\<open>patched = False\<close>\<close>
  "udp_loop [] content = None"
| "udp_loop (pattern # patterns) content =
     (if sublist pattern content
      then Some (replace pattern (robust_bind pattern) content)
      else udp_loop patterns content)"

definition patch_udp_text :: "pystr \<Rightarrow> patch_outcome \<times> pystr option" where
  "patch_udp_text content =
     (if sublist udp_marker content then (ALREADY_APPLIED, None)
      else (case udp_loop udp_bind_patterns content of
              Some content' \<Rightarrow> (APPLIED, Some content')
            | None \<Rightarrow> (PATTERN_NOT_FOUND, None)))"

subsection \<open>\<^verbatim>\<open>patch_userapi_connection\<close>\<close>

definition userapi_marker :: pystr where
  "userapi_marker = str ''# PYHULA_USERAPI_PATCH_APPLIED''"

definition connect_pattern :: pystr where
  \<open>connect_pattern = str (''def connect(self, server_ip="192.168.100.1"):'')\<close>

definition robust_connect :: pystr where
  \<open>robust_connect = join_nl
      [str ''def connect(self, server_ip="192.168.100.1"):'',
       str ''        """'',
       str ''        connect to the drone with robust error handling'',
       str ''        """'',
       str ''        # PYHULA_USERAPI_PATCH_APPLIED'',
       str ''        try:'',
       str ''            print(f"Connecting to drone at {server_ip}...")'',
       str ''            result = self._control_server.connect(server_ip)'',
       str ''            if result:'',
       str ''                print("'' @ [10003] @ str '' Connection established")'',
       str ''            else:'',
       str ''                print("'' @ [10007] @ str '' Connection failed - no response from drone")'',
       str ''            return result'',
       str ''        except Exception as e:'',
       str ''            print(f"'' @ [10007] @ str '' Connection error: {e}")'',
       str ''            print("Troubleshooting:")'',
       str ''            print(f"1. Verify drone is at IP: {server_ip}")'',
       str ''            print("2. Check WiFi connection to drone network")'',
       str ''            print("3. Ensure drone is powered and in AP mode")'',
       str ''            return False'']\<close>

definition robust_lines :: "nat \<Rightarrow> pystr list" where
  \<comment> \<open>\<^verbatim>\<open>' ' * indent_level + robust_line if robust_line.strip() else ''\<close>
      for every line of \<^verbatim>\<open>robust_connect\<close>\<close>
  "robust_lines indent_level =
     map (\<lambda>robust_line. if strip robust_line \<noteq> []
                         then replicate indent_level 32 @ robust_line else [])
       (split_nl robust_connect)"

fun connect_loop :: "pystr list \<Rightarrow> bool \<Rightarrow> nat \<Rightarrow> pystr list \<Rightarrow> pystr list" where
  "connect_loop [] in_connect_method indent_level new_lines = new_lines"
| "connect_loop (line # lines) in_connect_method indent_level new_lines =
     (if sublist connect_pattern line
      then connect_loop lines True (indent_width line)
             (new_lines @ robust_lines (indent_width line))
      else if in_connect_method
      then (if strip line \<noteq> [] \<and> indent_width line \<le> indent_level
               \<and> prefix (str ''def '') (strip line)
            then connect_loop lines False indent_level (new_lines @ [line])
            else connect_loop lines in_connect_method indent_level new_lines)
      else connect_loop lines in_connect_method indent_level (new_lines @ [line]))"

definition patch_userapi_text :: "pystr \<Rightarrow> patch_outcome \<times> pystr option" where
  "patch_userapi_text content =
     (if sublist userapi_marker content then (ALREADY_APPLIED, None)
      else if sublist connect_pattern content
      then (APPLIED, Some (join_nl (connect_loop (split_nl content) False 0 [])))
      else (PATTERN_NOT_FOUND, None))"

section \<open>The block boundary, as the specification words it\<close>

definition docstring_line :: "pystr \<Rightarrow> bool" where
  \<comment> \<open>a line whose stripped text starts with three double quotes\<close>
  "docstring_line line \<longleftrightarrow> prefix triple_quote (strip line)"

definition block_terminator :: "nat \<Rightarrow> pystr \<Rightarrow> bool" where
  \<comment> \<open>non-blank, indentation width at most the reference depth, not a docstring line\<close>
  "block_terminator depth line \<longleftrightarrow>
     strip line \<noteq> [] \<and> indent_width line \<le> depth \<and> \<not> docstring_line line"

definition next_def_line :: "nat \<Rightarrow> pystr \<Rightarrow> bool" where
  \<comment> \<open>non-blank, indentation width at most the reference depth, stripped text starting
      with \<^verbatim>\<open>def \<close>: the test of \<^verbatim>\<open>patch_userapi_connection\<close>\<close>
  "next_def_line depth line \<longleftrightarrow>
     strip line \<noteq> [] \<and> indent_width line \<le> depth \<and> prefix (str ''def '') (strip line)"

definition pack_head :: "pystr list" where
  \<comment> \<open>the four lines with which both \<^verbatim>\<open>original_pack_pattern\<close> and
      \<^verbatim>\<open>fixed_pack_code\<close> begin: the header of \<^verbatim>\<open>pack\<close> and its docstring\<close>
  \<open>pack_head =
     [str ''    def pack(self, force_mavlink1=False):'',
      str ''        """'',
      str ''        pack the MAVLink header into a byte string'',
      str ''        """'']\<close>

fun join_with :: "pystr \<Rightarrow> pystr list \<Rightarrow> pystr" where
  \<comment> \<open>the pieces of a text put together with \<open>sep\<close> between them: \<^verbatim>\<open>sep.join(ss)\<close>\<close>
  "join_with sep [] = []"
| "join_with sep [s] = s"
| "join_with sep (s # t # ss) = s @ sep @ join_with sep (t # ss)"

fun border_free_from :: "pystr \<Rightarrow> pystr \<Rightarrow> bool" where
  \<comment> \<open>no non-empty suffix of \<open>t\<close> is a prefix of \<open>q\<close>\<close>
  "border_free_from q [] = True"
| "border_free_from q (c # t) = (\<not> prefix (c # t) q \<and> border_free_from q t)"

definition unbordered :: "pystr \<Rightarrow> bool" where
  \<comment> \<open>\<open>q\<close> cannot overlap itself: no proper non-empty suffix of it is a prefix of it\<close>
  "unbordered q \<longleftrightarrow> q \<noteq> [] \<and> border_free_from q (tl q)"

section \<open>The file system and the patcher object\<close>

text \<open>
  A path is the list of its components; \<^verbatim>\<open>p / "a/b"\<close> appends the components
  \<^verbatim>\<open>a\<close> and \<^verbatim>\<open>b\<close>. The file system maps a path to what is there: a regular
  file with its text (as Python reads it in text mode), or a directory. A library call
  that the operating system rejects because of what is at a path (a directory where a
  file is needed, a file where a directory is needed, a missing parent) raises; the
  model returns \<open>None\<close> there and leaves the file system as it was. Faults that depend
  on anything else (permissions, disk space, undecodable bytes) are not part of it.
\<close>

type_synonym path = "string list"

datatype node = File pystr | Dir

type_synonym fs = "path \<rightharpoonup> node"

datatype 'a result = Returned 'a | Raised

definition path_exists :: "fs \<Rightarrow> path \<Rightarrow> bool" where
  \<comment> \<open>\<^verbatim>\<open>Path.exists()\<close>\<close>
  "path_exists fs p \<longleftrightarrow> fs p \<noteq> None"

definition read_text :: "fs \<Rightarrow> path \<Rightarrow> pystr option" where
  \<comment> \<open>\<^verbatim>\<open>open(p, 'r').read()\<close>\<close>
  "read_text fs p = (case fs p of Some (File t) \<Rightarrow> Some t | _ \<Rightarrow> None)"

definition write_text :: "fs \<Rightarrow> path \<Rightarrow> pystr \<Rightarrow> fs option" where
  \<comment> \<open>\<^verbatim>\<open>open(p, 'w').write(t)\<close>: the file is created if its parent is a directory\<close>
  "write_text fs p t =
     (case fs p of
        Some Dir \<Rightarrow> None
      | Some (File _) \<Rightarrow> Some (fs(p \<mapsto> File t))
      | None \<Rightarrow> if fs (butlast p) = Some Dir then Some (fs(p \<mapsto> File t)) else None)"

definition mkdir :: "fs \<Rightarrow> path \<Rightarrow> fs option" where
  \<comment> \<open>\<^verbatim>\<open>Path.mkdir()\<close>\<close>
  "mkdir fs p =
     (if fs p \<noteq> None then None
      else if fs (butlast p) = Some Dir then Some (fs(p \<mapsto> Dir)) else None)"

function mkdir_parents :: "fs \<Rightarrow> path \<Rightarrow> fs option" where
  \<comment> \<open>\<^verbatim>\<open>Path.mkdir(parents=True, exist_ok=True)\<close>\<close>
  "mkdir_parents fs p =
     (if fs p = Some Dir then Some fs
      else if fs p \<noteq> None \<or> p = [] then None
      else (case mkdir_parents fs (butlast p) of
              None \<Rightarrow> None
            | Some fs' \<Rightarrow> Some (fs'(p \<mapsto> Dir))))"
  by pat_completeness auto
termination
  by (relation "measure (\<lambda>(fs, p). length p)") auto

declare mkdir_parents.simps [simp del]

definition copy2 :: "fs \<Rightarrow> path \<Rightarrow> path \<Rightarrow> fs option" where
  \<comment> \<open>\<^verbatim>\<open>shutil.copy2(src, dst)\<close>: into \<open>dst\<close> if that is a directory\<close>
  "copy2 fs src dst =
     (case fs src of
        Some (File t) \<Rightarrow>
          (let dst' = (if fs dst = Some Dir then dst @ [last src] else dst)
           in if dst' = src then None else write_text fs dst' t)
      | _ \<Rightarrow> None)"

record patcher =
  pyhula_path :: "path option"
  backup_dir :: "path option"
  patches_applied :: "string list"

definition init_patcher :: patcher where
  \<comment> \<open>\<^verbatim>\<open>PyHulaPatcher.__init__\<close>\<close>
  "init_patcher = \<lparr>pyhula_path = None, backup_dir = None, patches_applied = []\<rparr>"

definition find_pyhula_installation :: "path option \<Rightarrow> patcher \<Rightarrow> bool \<times> patcher" where
  \<comment> \<open>\<open>installed\<close> is the directory of the importable package \<^verbatim>\<open>pyhula\<close>, if the
      import succeeds\<close>
  "find_pyhula_installation installed self =
     (case installed of
        Some dir \<Rightarrow> (True, self\<lparr>pyhula_path := Some dir\<rparr>)
      | None \<Rightarrow> (False, self))"

definition files_to_backup :: "path list" where
  "files_to_backup =
     [[''pypack'', ''fylo'', ''mavlink.py''],
      [''pypack'', ''system'', ''taskcontroller.py''],
      [''userapi.py'']]"

fun backup_loop :: "path \<Rightarrow> path \<Rightarrow> path list \<Rightarrow> fs \<Rightarrow> unit result \<times> fs" where
  \<comment> \<open>the \<^verbatim>\<open>for file_path in files_to_backup\<close> loop of \<^verbatim>\<open>create_backup\<close>\<close>
  "backup_loop root bdir [] fs = (Returned (), fs)"
| "backup_loop root bdir (file_path # rest) fs =
     (let source = root @ file_path in
      if path_exists fs source
      then (let backup_dest = bdir @ file_path in
            case mkdir_parents fs (butlast backup_dest) of
              None \<Rightarrow> (Raised, fs)
            | Some fs1 \<Rightarrow>
                (case copy2 fs1 source backup_dest of
                   None \<Rightarrow> (Raised, fs1)
                 | Some fs2 \<Rightarrow> backup_loop root bdir rest fs2))
      else backup_loop root bdir rest fs)"

definition create_backup :: "patcher \<Rightarrow> fs \<Rightarrow> bool result \<times> patcher \<times> fs" where
  "create_backup self fs =
     (case pyhula_path self of
        None \<Rightarrow> (Returned False, self, fs)
      | Some root \<Rightarrow>
          (let bdir = root @ [''original_backup''];
               self' = self\<lparr>backup_dir := Some bdir\<rparr>
           in case (if \<not> path_exists fs bdir then mkdir fs bdir else Some fs) of
                None \<Rightarrow> (Raised, self', fs)
              | Some fs1 \<Rightarrow>
                  (case backup_loop root bdir files_to_backup fs1 of
                     (Raised, fs2) \<Rightarrow> (Raised, self', fs2)
                   | (Returned _, fs2) \<Rightarrow> (Returned True, self', fs2))))"

definition patch_file ::
  "path \<Rightarrow> (pystr \<Rightarrow> patch_outcome \<times> pystr option) \<Rightarrow> string \<Rightarrow>
   patcher \<Rightarrow> fs \<Rightarrow> patch_outcome result \<times> patcher \<times> fs" where
  \<comment> \<open>the frame the three patch methods share: the existence test, the read, the
      rewrite of the text, the write and the entry in \<^verbatim>\<open>patches_applied\<close>; with no
      installation path, \<^verbatim>\<open>self.pyhula_path / ...\<close> raises\<close>
  "patch_file rel rewrite name self fs =
     (case pyhula_path self of
        None \<Rightarrow> (Raised, self, fs)
      | Some root \<Rightarrow>
          (let file = root @ rel in
           if \<not> path_exists fs file then (Returned FILE_MISSING, self, fs)
           else (case read_text fs file of
                   None \<Rightarrow> (Raised, self, fs)
                 | Some content \<Rightarrow>
                     (case rewrite content of
                        (outcome, None) \<Rightarrow> (Returned outcome, self, fs)
                      | (outcome, Some patched_content) \<Rightarrow>
                          (case write_text fs file patched_content of
                             None \<Rightarrow> (Raised, self, fs)
                           | Some fs' \<Rightarrow>
                               (Returned outcome,
                                self\<lparr>patches_applied := patches_applied self @ [name]\<rparr>,
                                fs'))))))"

definition mavlink_file :: path where
  "mavlink_file = [''pypack'', ''fylo'', ''mavlink.py'']"

definition taskcontroller_file :: path where
  "taskcontroller_file = [''pypack'', ''system'', ''taskcontroller.py'']"

definition userapi_file :: path where
  "userapi_file = [''userapi.py'']"

definition patch_mavlink_header :: "patcher \<Rightarrow> fs \<Rightarrow> patch_outcome result \<times> patcher \<times> fs" where
  "patch_mavlink_header = patch_file mavlink_file patch_mavlink_text ''mavlink_header_fix''"

definition patch_udp_binding :: "patcher \<Rightarrow> fs \<Rightarrow> patch_outcome result \<times> patcher \<times> fs" where
  "patch_udp_binding = patch_file taskcontroller_file patch_udp_text ''udp_binding_fix''"

definition patch_userapi_connection :: "patcher \<Rightarrow> fs \<Rightarrow> patch_outcome result \<times> patcher \<times> fs" where
  "patch_userapi_connection = patch_file userapi_file patch_userapi_text ''userapi_connection_fix''"

fun patch_loop ::
  "(patcher \<Rightarrow> fs \<Rightarrow> patch_outcome result \<times> patcher \<times> fs) list \<Rightarrow> nat \<Rightarrow>
   patcher \<Rightarrow> fs \<Rightarrow> nat result \<times> patcher \<times> fs" where
  \<comment> \<open>the \<^verbatim>\<open>for name, patch_func in patches\<close> loop with its \<^verbatim>\<open>success_count\<close>\<close>
  "patch_loop [] success_count self fs = (Returned success_count, self, fs)"
| "patch_loop (patch_func # patches) success_count self fs =
     (case patch_func self fs of
        (Raised, self', fs') \<Rightarrow> (Raised, self', fs')
      | (Returned outcome, self', fs') \<Rightarrow>
          patch_loop patches
            (if returned outcome then success_count + 1 else success_count) self' fs')"

definition apply_all_patches :: "path option \<Rightarrow> patcher \<Rightarrow> fs \<Rightarrow> bool result \<times> patcher \<times> fs" where
  \<comment> \<open>\<^verbatim>\<open>verify_patches\<close>, called when \<^verbatim>\<open>success_count > 0\<close>, reloads the package
      and catches every exception; its result is dropped and it is left out here\<close>
  "apply_all_patches installed self fs =
     (case find_pyhula_installation installed self of
        (False, self1) \<Rightarrow> (Returned False, self1, fs)
      | (True, self1) \<Rightarrow>
          (case create_backup self1 fs of
             (Raised, self2, fs2) \<Rightarrow> (Raised, self2, fs2)
           | (Returned False, self2, fs2) \<Rightarrow> (Returned False, self2, fs2)
           | (Returned True, self2, fs2) \<Rightarrow>
               (case patch_loop [patch_mavlink_header, patch_udp_binding,
                                 patch_userapi_connection] 0 self2 fs2 of
                  (Raised, self3, fs3) \<Rightarrow> (Raised, self3, fs3)
                | (Returned success_count, self3, fs3) \<Rightarrow>
                    (Returned (success_count > 0), self3, fs3))))"


fun restore_loop :: "path option \<Rightarrow> path \<Rightarrow> path list \<Rightarrow> fs \<Rightarrow> unit result \<times> fs" where
  \<comment> \<open>the \<^verbatim>\<open>for backup_file in self.backup_dir.rglob("*.py")\<close> loop;
      \<^verbatim>\<open>relative_to\<close> raises on a path that is not below \<open>bdir\<close>, and so does
      \<^verbatim>\<open>self.pyhula_path / relative_path\<close> with no installation path\<close>
  "restore_loop root bdir [] fs = (Returned (), fs)"
| "restore_loop root bdir (backup_file # rest) fs =
     (if \<not> prefix bdir backup_file then (Raised, fs)
      else (case root of
              None \<Rightarrow> (Raised, fs)
            | Some pyhula \<Rightarrow>
                (let relative_path = drop (length bdir) backup_file;
                     target_file = pyhula @ relative_path
                 in case mkdir_parents fs (butlast target_file) of
                      None \<Rightarrow> (Raised, fs)
                    | Some fs1 \<Rightarrow>
                        (case copy2 fs1 backup_file target_file of
                           None \<Rightarrow> (Raised, fs1)
                         | Some fs2 \<Rightarrow> restore_loop root bdir rest fs2))))"

definition restore_backup :: "path list \<Rightarrow> patcher \<Rightarrow> fs \<Rightarrow> bool result \<times> fs" where
  "restore_backup found self fs =
     (case backup_dir self of
        None \<Rightarrow> (Returned False, fs)
      | Some bdir \<Rightarrow>
          if \<not> path_exists fs bdir then (Returned False, fs)
          else (case restore_loop (pyhula_path self) bdir found fs of
                  (Raised, fs') \<Rightarrow> (Raised, fs')
                | (Returned _, fs') \<Rightarrow> (Returned True, fs')))"

definition main_restore :: "path option \<Rightarrow> path list \<Rightarrow> fs \<Rightarrow> bool result \<times> fs" where
  \<comment> \<open>\<^verbatim>\<open>main\<close> with \<^verbatim>\<open>--restore\<close>\<close>
  "main_restore installed found fs =
     (case find_pyhula_installation installed init_patcher of
        (_, patcher) \<Rightarrow> restore_backup found patcher fs)"

definition main_patch :: "path option \<Rightarrow> fs \<Rightarrow> bool result \<times> patcher \<times> fs" where
  \<comment> \<open>\<^verbatim>\<open>main\<close> in its default mode\<close>
  "main_patch installed fs = apply_all_patches installed init_patcher fs"

fun rerun :: "nat \<Rightarrow> path option \<Rightarrow> fs \<Rightarrow> fs" where
  \<comment> \<open>the file system after \<open>n\<close> further runs of the default mode\<close>
  "rerun 0 installed fs = fs"
| "rerun (Suc n) installed fs = rerun n installed (snd (snd (main_patch installed fs)))"

section \<open>Fixtures\<close>

text \<open>Small installations on which the theorems below are instantiated.\<close>

definition fixture_root :: path where
  "fixture_root = [''site-packages'', ''pyhula'']"

definition fixture_patcher :: patcher where
  \<comment> \<open>a patcher that has located the installation\<close>
  "fixture_patcher = init_patcher\<lparr>pyhula_path := Some fixture_root\<rparr>"

definition fixture_mavlink :: pystr where
  \<comment> \<open>a class with the six-line method \<^verbatim>\<open>pack\<close> at depth 4 and a sibling\<close>
  \<open>fixture_mavlink = join_nl
      [str ''class MAVLink_header(object):'',
       str ''    def pack(self, force_mavlink1=False):'',
       str ''        """'',
       str ''        pack the MAVLink header into a byte string'',
       str ''        """'',
       str ''        hdr = (self.mlen, self.seq, self.srcSystem, self.srcComponent, self.msgId)'',
       str ''        return struct.pack("<BBBBBB", 254, *hdr)'',
       str ''    def unpack(self):'',
       str ''        pass'']\<close>

definition fixture_taskcontroller :: pystr where
  \<open>fixture_taskcontroller = join_nl
      [str ''    def start(self):'',
       str (''        self.sock.bind(('' @ [CHR 0x27, CHR 0x27] @ '', self.listen_port))''),
       str ''        self.running = True'']\<close>

definition fixture_userapi :: pystr where
  \<open>fixture_userapi = join_nl
      [str ''class UserApi:'',
       str ''    def connect(self, server_ip="192.168.100.1"):'',
       str ''        return self._control_server.connect(server_ip)'',
       str ''    def close(self):'',
       str ''        pass'']\<close>

definition fixture_dirs :: fs where
  "fixture_dirs =
     [fixture_root \<mapsto> Dir,
      fixture_root @ [''pypack''] \<mapsto> Dir,
      fixture_root @ [''pypack'', ''fylo''] \<mapsto> Dir,
      fixture_root @ [''pypack'', ''system''] \<mapsto> Dir]"

definition fixture_fs :: fs where
  \<comment> \<open>an installation with the three target files, unpatched\<close>
  "fixture_fs = fixture_dirs
     (fixture_root @ mavlink_file \<mapsto> File fixture_mavlink,
      fixture_root @ taskcontroller_file \<mapsto> File fixture_taskcontroller,
      fixture_root @ userapi_file \<mapsto> File fixture_userapi)"

definition other_fs :: fs where
  \<comment> \<open>an installation whose three files hold none of the patterns\<close>
  "other_fs = fixture_dirs
     (fixture_root @ mavlink_file \<mapsto> File (str ''import struct''),
      fixture_root @ taskcontroller_file \<mapsto> File (str ''import socket''),
      fixture_root @ userapi_file \<mapsto> File (str ''import os''))"

definition fixture_udp_pieces :: "pystr list" where
  \<comment> \<open>what stands before, between and after two statements that bind with the second
      variant; the piece between them holds the fourth variant\<close>
  \<open>fixture_udp_pieces =
     [str ''        '',
      nl # str ''        sock.bind(("", port))'' @ nl # str ''        '',
      nl # str ''        self.running = True'']\<close>




section \<open>Evaluation of the string operations on literals\<close>

lemmas py_eval =
  str_def nl_def is_space_def lstrip_def rstrip_def strip_def indent_width_def
  triple_quote_def docstring_line_def block_terminator_def next_def_line_def
  pack_signature_def connect_pattern_def sublist_code

section \<open>Facts about the string operations\<close>

lemma split_nl_nonempty: "split_nl s \<noteq> []"
  by (induction s) (auto split: list.splits)

lemma join_nl_Cons: "ls \<noteq> [] \<Longrightarrow> join_nl (l # ls) = l @ nl # join_nl ls"
  by (cases ls) simp_all

lemma join_nl_Cons_Cons: "join_nl ((c # l) # ls) = c # join_nl (l # ls)"
  by (cases ls) simp_all

lemma join_split: "join_nl (split_nl s) = s"
proof (induction s)
  case Nil
  show ?case by simp
next
  case (Cons c s)
  show ?case
  proof (cases "split_nl s")
    case Nil
    then show ?thesis by (simp add: split_nl_nonempty)
  next
    case (Cons l ls)
    with Cons.IH have "join_nl (l # ls) = s" by simp
    then show ?thesis
      using Cons by (simp add: join_nl_Cons_Cons join_nl_Cons)
  qed
qed

lemma sublist_extend: "sublist xs ys \<Longrightarrow> sublist xs (ps @ ys @ ss)"
  unfolding sublist_def by (metis append.assoc)

lemma split_nl_no_nl: "nl \<notin> set l \<Longrightarrow> split_nl l = [l]"
  by (induction l) auto

lemma split_nl_line: "nl \<notin> set l \<Longrightarrow> split_nl (l @ nl # s) = l # split_nl s"
  by (induction l) auto

lemma split_join:
  "ls \<noteq> [] \<Longrightarrow> \<forall>l\<in>set ls. nl \<notin> set l \<Longrightarrow> split_nl (join_nl ls) = ls"
proof (induction ls rule: join_nl.induct)
  case 1
  then show ?case by simp
next
  case (2 l)
  then show ?case by (simp add: split_nl_no_nl)
next
  case (3 l m ls)
  then show ?case by (simp add: split_nl_line)
qed

lemma split_nl_lines: "l \<in> set (split_nl s) \<Longrightarrow> nl \<notin> set l"
proof (induction s arbitrary: l)
  case Nil
  then show ?case by simp
next
  case (Cons c s)
  then show ?case
    by (cases "split_nl s") (auto simp: split_nl_nonempty split: if_splits)
qed

lemma sublist_join: "l \<in> set ls \<Longrightarrow> sublist l (join_nl ls)"
proof (induction ls rule: join_nl.induct)
  case 1
  then show ?case by simp
next
  case (2 l')
  then show ?case by simp
next
  case (3 l' m ls)
  show ?case
  proof (cases "l = l'")
    case True
    then show ?thesis by (simp add: sublist_append_rightI)
  next
    case False
    with 3 have "sublist l (join_nl (m # ls))" by simp
    then have "sublist l ((l' @ [nl]) @ join_nl (m # ls) @ [])"
      by (rule sublist_extend)
    then show ?thesis by simp
  qed
qed

lemma prefix_no_sep: "x \<notin> set p \<Longrightarrow> prefix p (l @ x # r) \<longleftrightarrow> prefix p l"
proof (induction l arbitrary: p)
  case Nil
  then show ?case by (cases p) auto
next
  case (Cons c l)
  then show ?case by (cases p) auto
qed

lemma sublist_no_sep:
  "x \<notin> set p \<Longrightarrow> sublist p (l @ x # r) \<longleftrightarrow> sublist p l \<or> sublist p r"
proof (induction l)
  case Nil
  then show ?case
    using prefix_no_sep [of x p "[]" r] by (auto simp: sublist_Cons_right)
next
  case (Cons c l)
  then show ?case
    using prefix_no_sep [of x p "c # l" r] by (auto simp: sublist_Cons_right)
qed

lemma sublist_join_line:
  "nl \<notin> set p \<Longrightarrow> sublist p (join_nl ls) \<Longrightarrow> p \<noteq> [] \<Longrightarrow> \<exists>l\<in>set ls. sublist p l"
proof (induction ls rule: join_nl.induct)
  case 1
  then show ?case by simp
next
  case (2 l)
  then show ?case by simp
next
  case (3 l m ls)
  then show ?case by (auto simp: sublist_no_sep)
qed

lemma sublist_split_line:
  "nl \<notin> set p \<Longrightarrow> sublist p s \<Longrightarrow> \<exists>l\<in>set (split_nl s). sublist p l"
proof (cases "p = []")
  case True
  then show ?thesis using split_nl_nonempty [of s] by (cases "split_nl s") auto
next
  case False
  assume "nl \<notin> set p" "sublist p s"
  then show ?thesis
    using sublist_join_line [of p "split_nl s"] False by (simp add: join_split)
qed

lemma occurrences_zero_iff: "occurrences p s = 0 \<longleftrightarrow> \<not> sublist p s"
  by (induction s) (auto simp: sublist_Cons_right)

lemma occurrences_sep:
  "x \<notin> set p \<Longrightarrow> p \<noteq> [] \<Longrightarrow>
   occurrences p (l @ x # r) = occurrences p l + occurrences p r"
proof (induction l)
  case Nil
  then show ?case by (cases p) auto
next
  case (Cons c l)
  then show ?case
    using prefix_no_sep [of x p "c # l" r] by simp
qed

lemma occurrences_join:
  "nl \<notin> set p \<Longrightarrow> p \<noteq> [] \<Longrightarrow>
   occurrences p (join_nl ls) = sum_list (map (occurrences p) ls)"
proof (induction ls rule: join_nl.induct)
  case 1
  then show ?case by simp
next
  case (2 l)
  then show ?case by simp
next
  case (3 l m ls)
  then show ?case by (simp add: occurrences_sep)
qed

lemma replace_Nil: "old \<noteq> [] \<Longrightarrow> replace old new [] = []"
  by (simp add: replace.simps)

lemma replace_prefix:
  "old \<noteq> [] \<Longrightarrow> replace old new (old @ s) = new @ replace old new s"
  by (subst replace.simps) simp

lemma replace_Cons:
  "old \<noteq> [] \<Longrightarrow> \<not> prefix old (c # s) \<Longrightarrow> replace old new (c # s) = c # replace old new s"
  by (subst replace.simps) simp

lemma prefix_short: "prefix p (a @ b) \<Longrightarrow> length p \<le> length a \<Longrightarrow> prefix p a"
  by (metis prefix_def append_eq_append_conv_if prefix_length_prefix prefixI)

lemma replace_segment:
  "old \<noteq> [] \<Longrightarrow> \<not> sublist old (seg @ butlast old) \<Longrightarrow>
   replace old new (seg @ old @ s) = seg @ new @ replace old new s"
proof (induction seg)
  case Nil
  then show ?case by (simp add: replace_prefix)
next
  case (Cons c seg)
  have "\<not> prefix old (c # seg @ old @ s)"
  proof
    assume "prefix old (c # seg @ old @ s)"
    moreover have "old @ s = butlast old @ last old # s"
      using append_butlast_last_id [OF Cons.prems(1)] by (metis append_Cons append_Nil append_assoc)
    ultimately have "prefix old (((c # seg) @ butlast old) @ last old # s)"
      by simp
    then have "prefix old ((c # seg) @ butlast old)"
      by (rule prefix_short) (use Cons.prems(1) in \<open>simp add: Suc_leI\<close>)
    then show False using Cons.prems(2) by (auto dest: prefix_imp_sublist)
  qed
  moreover have "\<not> sublist old (seg @ butlast old)"
    using Cons.prems(2) by (auto simp: sublist_Cons_right)
  ultimately show ?case
    using Cons by (simp add: replace_Cons)
qed

lemma replace_absent:
  "old \<noteq> [] \<Longrightarrow> \<not> sublist old s \<Longrightarrow> replace old new s = s"
proof (induction s)
  case Nil
  then show ?case by (simp add: replace_Nil)
next
  case (Cons c s)
  then show ?case
    by (auto simp: sublist_Cons_right replace_Cons)
qed

lemma replace_embeds:
  "old \<noteq> [] \<Longrightarrow> sublist old s \<Longrightarrow> sublist new (replace old new s)"
proof (induction s)
  case Nil
  then show ?case by simp
next
  case (Cons c s)
  show ?case
  proof (cases "prefix old (c # s)")
    case True
    then obtain r where "c # s = old @ r" by (auto simp: prefix_def)
    then show ?thesis
      using Cons.prems(1) by (simp add: replace_prefix sublist_append_rightI)
  next
    case False
    with Cons have "sublist new (replace old new s)"
      by (simp add: sublist_Cons_right)
    then show ?thesis
      using False Cons.prems(1) by (simp add: replace_Cons sublist_Cons_right)
  qed
qed

section \<open>The scanning loops\<close>

lemma pack_loop_acc:
  "pack_loop lines b i acc = acc @ pack_loop lines b i []"
proof (induction lines arbitrary: b i acc)
  case Nil
  show ?case by simp
next
  case (Cons line lines)
  show ?case
    using Cons.IH [of _ _ "acc @ split_nl fixed_pack_code"]
      Cons.IH [of _ _ "split_nl fixed_pack_code"]
      Cons.IH [of _ _ "acc @ [line]"] Cons.IH [of _ _ "[line]"] Cons.IH [of _ _ acc]
    by simp
qed

lemma pack_loop_outside:
  "\<forall>l\<in>set pre. \<not> sublist pack_signature l \<Longrightarrow>
   pack_loop (pre @ rest) False i acc = pack_loop rest False i (acc @ pre)"
  by (induction pre arbitrary: acc) simp_all

lemma pack_loop_inside:
  "\<forall>l\<in>set body. \<not> sublist pack_signature l \<and> \<not> block_terminator i l \<Longrightarrow>
   pack_loop (body @ rest) True i acc = pack_loop rest True i acc"
  by (induction body arbitrary: acc) (auto simp: block_terminator_def docstring_line_def)

lemma pack_loop_restart:
  "sublist pack_signature header \<Longrightarrow>
   pack_loop (pre @ header # rest) b i acc =
   pack_loop rest True (indent_width header) (pack_loop pre b i acc @ split_nl fixed_pack_code)"
  by (induction pre arbitrary: b i acc) simp_all

lemma connect_loop_acc:
  "connect_loop lines b i acc = acc @ connect_loop lines b i []"
proof (induction lines arbitrary: b i acc)
  case Nil
  show ?case by simp
next
  case (Cons line lines)
  show ?case
    using Cons.IH [of _ _ "acc @ robust_lines (indent_width line)"]
      Cons.IH [of _ _ "robust_lines (indent_width line)"]
      Cons.IH [of _ _ "acc @ [line]"] Cons.IH [of _ _ "[line]"] Cons.IH [of _ _ acc]
    by simp
qed

lemma connect_loop_outside:
  "\<forall>l\<in>set pre. \<not> sublist connect_pattern l \<Longrightarrow>
   connect_loop (pre @ rest) False i acc = connect_loop rest False i (acc @ pre)"
  by (induction pre arbitrary: acc) simp_all

lemma connect_loop_inside:
  "\<forall>l\<in>set body. \<not> sublist connect_pattern l \<and> \<not> next_def_line i l \<Longrightarrow>
   connect_loop (body @ rest) True i acc = connect_loop rest True i acc"
  by (induction body arbitrary: acc) (auto simp: next_def_line_def)

lemma connect_loop_restart:
  "sublist connect_pattern header \<Longrightarrow>
   connect_loop (pre @ header # rest) b i acc =
   connect_loop rest True (indent_width header)
     (connect_loop pre b i acc @ robust_lines (indent_width header))"
  by (induction pre arbitrary: b i acc) simp_all

lemma def_prefix_not_docstring:
  "prefix (str ''def '') s \<Longrightarrow> s \<noteq> [] \<and> \<not> prefix triple_quote s"
  by (cases s) (auto simp: str_def triple_quote_def)

text \<open>
  C1, as stated, fails for the second of its two targets. The class attribute line
  \<^verbatim>\<open>    timeout = 5\<close> after a \<^verbatim>\<open>connect\<close> method at depth 4 is non-blank, has
  indentation width 4 and is no docstring line, so it is a terminator in the words of the
  claim; the loop of \<^verbatim>\<open>patch_userapi_connection\<close> does not stop there and drops the
  line: the rewritten lines are the replacement alone.
\<close>

theorem connect_scan_passes_terminator:
  "block_terminator 4 (str ''    timeout = 5'') \<and>
   connect_loop
     [str ''    '' @ connect_pattern,
      str ''        return True'',
      str ''    timeout = 5''] False 0 []
   = robust_lines 4"
  by (simp add: py_eval) (simp add: eval_nat_numeral)

text \<open>
  C1, amended. In \<^verbatim>\<open>patch_mavlink_header\<close> the block that opens at a line containing
  the signature runs over every following line that neither contains the signature again
  nor is a terminator (non-blank, indentation width at most that of the opening line, not
  a docstring line): to the end of the file if there is no terminator, and otherwise
  exactly up to the first terminator, which is kept and after which copying resumes. A
  docstring line never ends the block, whatever its depth. In
  \<^verbatim>\<open>patch_userapi_connection\<close> the same holds with another test: the block ends
  only at the first following line that is non-blank, has indentation width at most that of
  the opening line and whose stripped text starts with \<^verbatim>\<open>def \<close>.
\<close>

theorem block_scan_boundary:
  assumes "sublist pack_signature opening"
    and "\<forall>l\<in>set body. \<not> sublist pack_signature l \<and> \<not> block_terminator (indent_width opening) l"
    and "sublist connect_pattern copening"
    and "\<forall>l\<in>set cbody. \<not> sublist connect_pattern l \<and> \<not> next_def_line (indent_width copening) l"
  shows
    "pack_loop (opening # body) b i acc = acc @ split_nl fixed_pack_code \<and>
     (\<forall>t rest. block_terminator (indent_width opening) t \<and> \<not> sublist pack_signature t \<longrightarrow>
        pack_loop (opening # body @ t # rest) b i acc =
        acc @ split_nl fixed_pack_code @ t # pack_loop rest False (indent_width opening) []) \<and>
     (\<forall>l rest d. docstring_line l \<and> \<not> sublist pack_signature l \<longrightarrow>
        pack_loop (l # rest) True d acc = pack_loop rest True d acc) \<and>
     connect_loop (copening # cbody) b i acc = acc @ robust_lines (indent_width copening) \<and>
     (\<forall>t rest. next_def_line (indent_width copening) t \<and> \<not> sublist connect_pattern t \<longrightarrow>
        connect_loop (copening # cbody @ t # rest) b i acc =
        acc @ robust_lines (indent_width copening) @
          t # connect_loop rest False (indent_width copening) [])"
proof (intro conjI allI impI)
  let ?d = "indent_width opening" and ?c = "indent_width copening"
  show "pack_loop (opening # body) b i acc = acc @ split_nl fixed_pack_code"
    using assms(1) pack_loop_inside [OF assms(2), of "[]"] by simp
  show "pack_loop (opening # body @ t # rest) b i acc =
      acc @ split_nl fixed_pack_code @ t # pack_loop rest False ?d []"
    if "block_terminator ?d t \<and> \<not> sublist pack_signature t" for t rest
    using that assms(1) pack_loop_inside [OF assms(2), of "t # rest"]
      pack_loop_acc [of rest False ?d "acc @ split_nl fixed_pack_code @ [t]"]
    by (simp add: block_terminator_def docstring_line_def)
  show "pack_loop (l # rest) True d acc = pack_loop rest True d acc"
    if "docstring_line l \<and> \<not> sublist pack_signature l" for l rest d
    using that by (simp add: docstring_line_def)
  show "connect_loop (copening # cbody) b i acc = acc @ robust_lines ?c"
    using assms(3) connect_loop_inside [OF assms(4), of "[]"] by simp
  show "connect_loop (copening # cbody @ t # rest) b i acc =
      acc @ robust_lines ?c @ t # connect_loop rest False ?c []"
    if "next_def_line ?c t \<and> \<not> sublist connect_pattern t" for t rest
    using that assms(3) connect_loop_inside [OF assms(4), of "t # rest"]
      connect_loop_acc [of rest False ?c "acc @ robust_lines ?c @ [t]"]
    by (simp add: next_def_line_def)
qed

theorem block_scan_boundary_witness:
  "sublist pack_signature (str ''    def pack(self, force_mavlink1=False):'') \<and>
   \<not> sublist pack_signature (str ''        return 1'') \<and>
   \<not> block_terminator 4 (str ''        return 1'') \<and>
   \<not> sublist pack_signature [] \<and> \<not> block_terminator 4 [] \<and>
   sublist connect_pattern (str ''    '' @ connect_pattern) \<and>
   \<not> sublist connect_pattern (str ''        return True'') \<and>
   \<not> next_def_line 4 (str ''        return True'') \<and>
   \<not> sublist connect_pattern (str ''    timeout = 5'') \<and>
   \<not> next_def_line 4 (str ''    timeout = 5'') \<and>
   pack_loop
     [str ''    def pack(self, force_mavlink1=False):'',
      str ''        return 1'',
      [],
      str ''    x = 1'',
      str ''    y = 2''] False 0 []
   = split_nl fixed_pack_code @ [str ''    x = 1'', str ''    y = 2''] \<and>
   connect_loop
     [str ''    '' @ connect_pattern,
      str ''        return True'',
      str ''    timeout = 5'',
      str ''    def close(self):'',
      str ''        pass''] False 0 []
   = robust_lines 4 @ [str ''    def close(self):'', str ''        pass'']"
proof -
  let ?po = "str ''    def pack(self, force_mavlink1=False):''"
  let ?pb = "[str ''        return 1'', []]"
  let ?co = "str ''    '' @ connect_pattern"
  let ?cb = "[str ''        return True'', str ''    timeout = 5'']"
  have dp: "indent_width ?po = 4" and dc: "indent_width ?co = 4"
    by (simp_all add: py_eval)
  have h1: "sublist pack_signature ?po"
    by (simp add: py_eval)
  have h2: "\<forall>l\<in>set ?pb. \<not> sublist pack_signature l \<and> \<not> block_terminator (indent_width ?po) l"
    unfolding dp by (simp add: py_eval)
  have h3: "sublist connect_pattern ?co"
    by (simp add: py_eval)
  have h4: "\<forall>l\<in>set ?cb. \<not> sublist connect_pattern l \<and> \<not> next_def_line (indent_width ?co) l"
    unfolding dc by (simp add: py_eval)
  note scan = block_scan_boundary [OF h1 h2 h3 h4, of False 0 "[]"]
  have t1: "block_terminator (indent_width ?po) (str ''    x = 1'') \<and>
      \<not> sublist pack_signature (str ''    x = 1'')"
    unfolding dp by (simp add: py_eval)
  have t2: "next_def_line (indent_width ?co) (str ''    def close(self):'') \<and>
      \<not> sublist connect_pattern (str ''    def close(self):'')"
    unfolding dc by (simp add: py_eval)
  have p: "pack_loop (?po # ?pb @ str ''    x = 1'' # [str ''    y = 2'']) False 0 []
      = split_nl fixed_pack_code @ [str ''    x = 1'', str ''    y = 2'']"
    using scan [THEN conjunct2, THEN conjunct1, rule_format, OF t1, of "[str ''    y = 2'']"]
    unfolding dp by (simp add: py_eval)
  have c: "connect_loop (?co # ?cb @ str ''    def close(self):'' # [str ''        pass'']) False 0 []
      = robust_lines 4 @ [str ''    def close(self):'', str ''        pass'']"
    using scan [THEN conjunct2, THEN conjunct2, THEN conjunct2, THEN conjunct2, rule_format,
        OF t2, of "[str ''        pass'']"]
    unfolding dc by (simp add: py_eval)
  show ?thesis
    using h1 h2 h3 h4 p c unfolding dp dc by simp
qed

section \<open>The marker in a patched text\<close>

lemma nl_free_literals:
  "nl \<notin> set pack_signature" "nl \<notin> set pack_marker" "nl \<notin> set udp_marker"
  "nl \<notin> set userapi_marker" "nl \<notin> set connect_pattern"
  by (simp_all add: py_eval pack_marker_def udp_marker_def userapi_marker_def)

lemma pack_marker_line:
  "str ''        # PYHULA_PATCH_APPLIED: Fix struct packing with proper integer conversion''
     \<in> set (split_nl fixed_pack_code)"
  unfolding fixed_pack_code_def
  by (subst split_join) (simp_all add: str_def nl_def)

lemma userapi_marker_line:
  "replicate d 32 @ str ''        # PYHULA_USERAPI_PATCH_APPLIED'' \<in> set (robust_lines d)"
  unfolding robust_lines_def robust_connect_def
  by (subst split_join) (simp_all add: py_eval)

lemma udp_marker_prefix: "prefix udp_marker (robust_bind pattern)"
  by (simp add: robust_bind_def udp_marker_def str_def)

lemma signature_in_pattern: "sublist pack_signature original_pack_pattern"
proof -
  have "sublist pack_signature (str ''    def pack(self, force_mavlink1=False):'')"
    by (simp add: py_eval)
  moreover have "sublist (str ''    def pack(self, force_mavlink1=False):'') original_pack_pattern"
    unfolding original_pack_pattern_def by (rule sublist_join) simp
  ultimately show ?thesis
    by (rule sublist_order.order.trans)
qed

lemma sublist_line_join:
  "l \<in> set ls \<Longrightarrow> sublist p l \<Longrightarrow> sublist p (join_nl ls)"
  using sublist_join sublist_order.order.trans by blast

lemma pack_loop_embeds:
  assumes "l \<in> set lines" and "sublist pack_signature l"
  shows "set (split_nl fixed_pack_code) \<subseteq> set (pack_loop lines b i acc)"
proof -
  from assms(1) obtain pre rest where "lines = pre @ l # rest"
    by (auto dest: split_list)
  then show ?thesis
    using pack_loop_restart [OF assms(2), of pre rest b i acc]
      pack_loop_acc [of rest True "indent_width l" "pack_loop pre b i acc @ split_nl fixed_pack_code"]
    by auto
qed

lemma connect_loop_embeds:
  assumes "l \<in> set lines" and "sublist connect_pattern l"
  shows "\<exists>d. set (robust_lines d) \<subseteq> set (connect_loop lines b i acc)"
proof -
  from assms(1) obtain pre rest where "lines = pre @ l # rest"
    by (auto dest: split_list)
  then have "set (robust_lines (indent_width l)) \<subseteq> set (connect_loop lines b i acc)"
    using connect_loop_restart [OF assms(2), of pre rest b i acc]
      connect_loop_acc [of rest True "indent_width l"
        "connect_loop pre b i acc @ robust_lines (indent_width l)"]
    by auto
  then show ?thesis ..
qed

lemma mavlink_applied_marker:
  assumes "patch_mavlink_text content = (APPLIED, Some out)"
  shows "sublist pack_marker out"
proof -
  from assms have pat: "sublist original_pack_pattern content"
    and out: "out = join_nl (pack_loop (split_nl content) False 0 [])"
    by (auto simp: patch_mavlink_text_def split: if_splits)
  from pat have "sublist pack_signature content"
    using signature_in_pattern sublist_order.order.trans by blast
  then obtain l where l: "l \<in> set (split_nl content)" "sublist pack_signature l"
    using sublist_split_line [OF nl_free_literals(1)] by blast
  have "sublist pack_marker
      (str ''        # PYHULA_PATCH_APPLIED: Fix struct packing with proper integer conversion'')"
    by (simp add: pack_marker_def py_eval)
  then show ?thesis
    unfolding out using pack_loop_embeds [OF l] pack_marker_line
    by (blast intro: sublist_line_join)
qed

lemma userapi_applied_marker:
  assumes "patch_userapi_text content = (APPLIED, Some out)"
  shows "sublist userapi_marker out"
proof -
  from assms have pat: "sublist connect_pattern content"
    and out: "out = join_nl (connect_loop (split_nl content) False 0 [])"
    by (auto simp: patch_userapi_text_def split: if_splits)
  from pat obtain l where l: "l \<in> set (split_nl content)" "sublist connect_pattern l"
    using sublist_split_line [OF nl_free_literals(5)] by blast
  then obtain d where d: "set (robust_lines d) \<subseteq> set (connect_loop (split_nl content) False 0 [])"
    using connect_loop_embeds by blast
  have "sublist userapi_marker (str ''        # PYHULA_USERAPI_PATCH_APPLIED'')"
    by (simp add: userapi_marker_def py_eval)
  then have "sublist userapi_marker (replicate d 32 @ str ''        # PYHULA_USERAPI_PATCH_APPLIED'' @ [])"
    by (rule sublist_extend)
  then show ?thesis
    unfolding out using d userapi_marker_line [of d]
    by (auto intro: sublist_line_join)
qed

lemma udp_loop_Some:
  "udp_loop patterns content = Some out \<Longrightarrow>
   \<exists>pattern\<in>set patterns. sublist pattern content \<and>
      out = replace pattern (robust_bind pattern) content"
  by (induction patterns) (auto split: if_splits)

lemma udp_patterns_nonempty: "\<forall>pattern\<in>set udp_bind_patterns. pattern \<noteq> []"
  by (simp add: udp_bind_patterns_def str_def)

lemma udp_applied_marker:
  assumes "patch_udp_text content = (APPLIED, Some out)"
  shows "sublist udp_marker out"
proof -
  from assms have "udp_loop udp_bind_patterns content = Some out"
    by (auto simp: patch_udp_text_def split: if_splits option.splits)
  then obtain pattern where p: "pattern \<in> set udp_bind_patterns" "sublist pattern content"
    "out = replace pattern (robust_bind pattern) content"
    using udp_loop_Some by blast
  then have "sublist (robust_bind pattern) out"
    using udp_patterns_nonempty by (simp add: replace_embeds)
  moreover have "sublist udp_marker (robust_bind pattern)"
    using udp_marker_prefix by (rule prefix_imp_sublist)
  ultimately show ?thesis
    using sublist_order.order.trans by blast
qed

section \<open>The patch methods on the file system\<close>

lemma write_text_Some:
  "write_text fs p t = Some fs' \<Longrightarrow> fs' = fs(p \<mapsto> File t)"
  by (auto simp: write_text_def split: option.splits node.splits if_splits)

lemma write_text_file:
  "fs p = Some (File t0) \<Longrightarrow> write_text fs p t = Some (fs(p \<mapsto> File t))"
  by (simp add: write_text_def)

lemma read_text_Some: "read_text fs p = Some t \<longleftrightarrow> fs p = Some (File t)"
  by (auto simp: read_text_def split: option.splits node.splits)

lemma patch_file_on_file:
  assumes "pyhula_path self = Some root" and "fs (root @ rel) = Some (File content)"
  shows "patch_file rel rewrite name self fs =
     (case rewrite content of
        (outcome, None) \<Rightarrow> (Returned outcome, self, fs)
      | (outcome, Some patched) \<Rightarrow>
          (Returned outcome, self\<lparr>patches_applied := patches_applied self @ [name]\<rparr>,
           fs(root @ rel \<mapsto> File patched)))"
  using assms
  by (auto simp: patch_file_def path_exists_def read_text_def write_text_def Let_def
      split: prod.splits option.splits)

lemma patch_file_missing:
  assumes "pyhula_path self = Some root" and "fs (root @ rel) = None"
  shows "patch_file rel rewrite name self fs = (Returned FILE_MISSING, self, fs)"
  using assms by (simp add: patch_file_def path_exists_def)

lemma patch_file_dir:
  assumes "pyhula_path self = Some root" and "fs (root @ rel) = Some Dir"
  shows "patch_file rel rewrite name self fs = (Raised, self, fs)"
  using assms by (simp add: patch_file_def path_exists_def read_text_def)

lemma no_pattern_mavlink:
  "\<not> sublist pack_marker content \<Longrightarrow> \<not> sublist original_pack_pattern content \<Longrightarrow>
   patch_mavlink_text content = (PATTERN_NOT_FOUND, None)"
  by (simp add: patch_mavlink_text_def)

lemma udp_loop_None:
  "\<forall>pattern\<in>set patterns. \<not> sublist pattern content \<Longrightarrow> udp_loop patterns content = None"
  by (induction patterns) auto

section \<open>What the backup step leaves alone\<close>

lemma mkdir_parents_frame:
  "mkdir_parents fs p = Some fs' \<Longrightarrow>
   fs' q = fs q \<or> (fs q = None \<and> fs' q = Some Dir \<and> prefix q p)"
proof (induction fs p arbitrary: fs' rule: mkdir_parents.induct)
  case (1 fs p)
  show ?case
  proof (cases "fs p = Some Dir")
    case True
    with "1.prems" show ?thesis by (simp add: mkdir_parents.simps)
  next
    case False
    with "1.prems" have none: "fs p = None" and ne: "p \<noteq> []"
      by (auto simp: mkdir_parents.simps [of fs p] split: if_splits)
    with "1.prems" False obtain fs1 where
      fs1: "mkdir_parents fs (butlast p) = Some fs1" and fs': "fs' = fs1(p \<mapsto> Dir)"
      by (auto simp: mkdir_parents.simps [of fs p] split: option.splits)
    have IH: "fs1 q = fs q \<or> (fs q = None \<and> fs1 q = Some Dir \<and> prefix q (butlast p))"
      using "1.IH" [OF False _ fs1] none ne by simp
    have "prefix (butlast p) p"
      by (simp add: prefixeq_butlast)
    then show ?thesis
      using IH none fs' by (auto intro: prefix_order.trans)
  qed
qed

lemma copy2_Some:
  "copy2 fs src dst = Some fs' \<Longrightarrow>
   \<exists>t. fs src = Some (File t) \<and>
     (fs' = fs(dst \<mapsto> File t) \<or> fs' = fs(dst @ [last src] \<mapsto> File t))"
  by (auto simp: copy2_def Let_def split: option.splits node.splits if_splits
      dest: write_text_Some)

lemma backup_loop_frame:
  "backup_loop root bdir rels fs = (r, fs') \<Longrightarrow> \<not> prefix bdir q \<Longrightarrow>
   fs' q = fs q \<or>
   (fs q = None \<and> fs' q = Some Dir \<and> (\<exists>rel\<in>set rels. prefix q (butlast (bdir @ rel))))"
proof (induction rels arbitrary: fs)
  case Nil
  then show ?case by simp
next
  case (Cons rel rels)
  show ?case
  proof (cases "path_exists fs (root @ rel)")
    case False
    with Cons.prems have "backup_loop root bdir rels fs = (r, fs')" by simp
    from Cons.IH [OF this Cons.prems(2)] show ?thesis by auto
  next
    case True
    show ?thesis
    proof (cases "mkdir_parents fs (butlast (bdir @ rel))")
      case None
      with True Cons.prems show ?thesis by simp
    next
      case (Some fs1)
      note f1 = mkdir_parents_frame [OF Some, of q]
      show ?thesis
      proof (cases "copy2 fs1 (root @ rel) (bdir @ rel)")
        case None
        with True Some Cons.prems have "fs' = fs1" by simp
        with f1 show ?thesis by auto
      next
        case (Some fs2)
        from copy2_Some [OF Some] Cons.prems(2) have f2: "fs2 q = fs1 q"
          by (auto simp: prefix_def)
        from True \<open>mkdir_parents fs (butlast (bdir @ rel)) = Some fs1\<close> Some Cons.prems
        have "backup_loop root bdir rels fs2 = (r, fs')" by simp
        from Cons.IH [OF this Cons.prems(2)] f1 f2 show ?thesis by auto
      qed
    qed
  qed
qed

lemma target_not_backup:
  assumes "rel \<in> set files_to_backup"
  shows "\<not> prefix (root @ [''original_backup'']) (root @ rel)"
    and "\<forall>rel'\<in>set files_to_backup.
           \<not> prefix (root @ rel) (butlast ((root @ [''original_backup'']) @ rel'))"
    and "root @ rel \<noteq> root @ [''original_backup'']"
  using assms by (auto simp: files_to_backup_def butlast_append)

lemma create_backup_frame:
  assumes "create_backup self fs = (r, self', fs')" and "rel \<in> set files_to_backup"
    and "pyhula_path self = Some root"
  shows "fs' (root @ rel) = fs (root @ rel)" and "pyhula_path self' = Some root"
proof -
  let ?bdir = "root @ [''original_backup'']"
  let ?fs0 = "if \<not> path_exists fs ?bdir then mkdir fs ?bdir else Some fs"
  show "pyhula_path self' = Some root"
    using assms(1,3)
    by (auto simp: create_backup_def Let_def split: option.splits prod.splits result.splits)
  show "fs' (root @ rel) = fs (root @ rel)"
  proof (cases ?fs0)
    case None
    with assms(1,3) show ?thesis by (simp add: create_backup_def Let_def)
  next
    case (Some fs1)
    then have 1: "fs1 (root @ rel) = fs (root @ rel)"
      using target_not_backup(3) [OF assms(2), of root]
      by (auto simp: mkdir_def split: if_splits)
    obtain r2 where "backup_loop root ?bdir files_to_backup fs1 = (r2, fs')"
      using assms(1,3) Some
      by (auto simp: create_backup_def Let_def split: prod.splits result.splits)
    from backup_loop_frame [OF this target_not_backup(1) [OF assms(2)]]
      target_not_backup(2) [OF assms(2), of root]
    have "fs' (root @ rel) = fs1 (root @ rel)" by blast
    with 1 show ?thesis by simp
  qed
qed

lemma patch_file_cases:
  assumes "pyhula_path self = Some root"
  obtains (missing) "fs (root @ rel) = None"
      "patch_file rel rewrite name self fs = (Returned FILE_MISSING, self, fs)"
    | (dir) "fs (root @ rel) = Some Dir"
      "patch_file rel rewrite name self fs = (Raised, self, fs)"
    | (kept) t outcome where "fs (root @ rel) = Some (File t)" "rewrite t = (outcome, None)"
      "patch_file rel rewrite name self fs = (Returned outcome, self, fs)"
    | (written) t outcome patched where "fs (root @ rel) = Some (File t)"
      "rewrite t = (outcome, Some patched)"
      "patch_file rel rewrite name self fs =
         (Returned outcome, self\<lparr>patches_applied := patches_applied self @ [name]\<rparr>,
          fs(root @ rel \<mapsto> File patched))"
proof (cases "fs (root @ rel)")
  case None
  then show ?thesis
    using missing patch_file_missing [OF assms, of fs rel rewrite name] by simp
next
  case (Some n)
  show ?thesis
  proof (cases n)
    case Dir
    with Some show ?thesis
      using dir patch_file_dir [OF assms, of fs rel rewrite name] by simp
  next
    case (File t)
    with Some have t: "fs (root @ rel) = Some (File t)" by simp
    obtain outcome x where rw: "rewrite t = (outcome, x)"
      by (cases "rewrite t")
    show ?thesis
    proof (cases x)
      case None
      with rw t show ?thesis
        using kept [of t outcome] patch_file_on_file [of self root fs rel t rewrite name] assms
        by simp
    next
      case (Some patched)
      with rw t show ?thesis
        using written [of t outcome patched]
          patch_file_on_file [of self root fs rel t rewrite name] assms
        by simp
    qed
  qed
qed

lemma patch_file_other:
  assumes "patch_file rel rewrite name self fs = (r, self', fs')"
    and "pyhula_path self = Some root" and "q \<noteq> root @ rel"
  shows "fs' q = fs q"
  using assms(2,1,3)
  by (cases rule: patch_file_cases [where fs = fs and rel = rel and rewrite = rewrite and name = name])
    auto

lemma patch_file_path:
  assumes "patch_file rel rewrite name self fs = (r, self', fs')"
    and "pyhula_path self = Some root"
  shows "pyhula_path self' = Some root"
  using assms(2,1,2)
  by (cases rule: patch_file_cases [where fs = fs and rel = rel and rewrite = rewrite and name = name])
    auto

lemma patch_file_local:
  assumes "pyhula_path self = Some root" and "pyhula_path selfa = Some root"
    and "fsa (root @ rel) = fs (root @ rel)"
  shows "fst (patch_file rel rewrite name selfa fsa) = fst (patch_file rel rewrite name self fs) \<and>
     snd (snd (patch_file rel rewrite name selfa fsa)) (root @ rel) =
     snd (snd (patch_file rel rewrite name self fs)) (root @ rel)"
  using assms(1)
proof (cases rule: patch_file_cases [where fs = fs and rel = rel and rewrite = rewrite and name = name])
  case missing
  then show ?thesis
    using patch_file_missing [OF assms(2), of fsa rel rewrite name] assms(3) by simp
next
  case dir
  then show ?thesis
    using patch_file_dir [OF assms(2), of fsa rel rewrite name] assms(3) by simp
next
  case (kept t outcome)
  then show ?thesis
    using patch_file_on_file [of selfa root fsa rel t rewrite name] assms(2,3) by simp
next
  case (written t outcome patched)
  then show ?thesis
    using patch_file_on_file [of selfa root fsa rel t rewrite name] assms(2,3) by simp
qed

lemma patch_file_no_dir:
  assumes "pyhula_path self = Some root" and "fs (root @ rel) \<noteq> Some Dir"
  shows "fst (patch_file rel rewrite name self fs) \<noteq> Raised"
  using assms
  by (cases rule: patch_file_cases [where fs = fs and rel = rel and rewrite = rewrite and name = name])
    auto

lemma target_paths_distinct:
  "root @ mavlink_file \<noteq> root @ taskcontroller_file"
  "root @ mavlink_file \<noteq> root @ userapi_file"
  "root @ taskcontroller_file \<noteq> root @ userapi_file"
  by (simp_all add: mavlink_file_def taskcontroller_file_def userapi_file_def)

lemma target_files: 
  "mavlink_file \<in> set files_to_backup" "taskcontroller_file \<in> set files_to_backup"
  "userapi_file \<in> set files_to_backup"
  by (simp_all add: mavlink_file_def taskcontroller_file_def userapi_file_def files_to_backup_def)

lemma marked_texts:
  "sublist pack_marker t \<Longrightarrow> patch_mavlink_text t = (ALREADY_APPLIED, None)"
  "sublist udp_marker t \<Longrightarrow> patch_udp_text t = (ALREADY_APPLIED, None)"
  "sublist userapi_marker t \<Longrightarrow> patch_userapi_text t = (ALREADY_APPLIED, None)"
  by (simp_all add: patch_mavlink_text_def patch_udp_text_def patch_userapi_text_def)

lemma mavlink_applied_text:
  assumes "patch_mavlink_text t = (APPLIED, x)"
  shows "\<exists>out. x = Some out \<and> sublist pack_marker out"
proof -
  from assms obtain out where "x = Some out"
    by (auto simp: patch_mavlink_text_def split: if_splits)
  with assms show ?thesis
    using mavlink_applied_marker by blast
qed

lemma udp_applied_text:
  assumes "patch_udp_text t = (APPLIED, x)"
  shows "\<exists>out. x = Some out \<and> sublist udp_marker out"
proof -
  from assms have "x \<noteq> None"
    by (cases "udp_loop udp_bind_patterns t") (auto simp: patch_udp_text_def split: if_splits)
  then obtain out where "x = Some out"
    by auto
  with assms show ?thesis
    using udp_applied_marker by blast
qed

lemma userapi_applied_text:
  assumes "patch_userapi_text t = (APPLIED, x)"
  shows "\<exists>out. x = Some out \<and> sublist userapi_marker out"
proof -
  from assms obtain out where "x = Some out"
    by (auto simp: patch_userapi_text_def split: if_splits)
  with assms show ?thesis
    using userapi_applied_marker by blast
qed

lemma patch_file_applied:
  assumes "patch_file rel rewrite name self fs = (Returned APPLIED, self1, fs1)"
    and "\<And>t x. rewrite t = (APPLIED, x) \<Longrightarrow> \<exists>out. x = Some out \<and> sublist marker out"
  shows "\<exists>root out. pyhula_path self = Some root \<and> pyhula_path self1 = Some root \<and>
           fs1 (root @ rel) = Some (File out) \<and> sublist marker out"
proof (cases "pyhula_path self")
  case None
  with assms(1) show ?thesis by (simp add: patch_file_def)
next
  case (Some root)
  then show ?thesis
  proof (cases rule: patch_file_cases [where fs = fs and rel = rel and rewrite = rewrite and name = name])
    case missing
    with assms(1) show ?thesis by simp
  next
    case dir
    with assms(1) show ?thesis by simp
  next
    case (kept t outcome)
    with assms show ?thesis by fastforce
  next
    case (written t outcome patched)
    with assms(1) have "rewrite t = (APPLIED, Some patched)" by simp
    from assms(2) [OF this] have "sublist marker patched" by simp
    with written assms(1) Some show ?thesis by auto
  qed
qed

lemma patch_file_marked:
  assumes "pyhula_path self = Some root" and "fs (root @ rel) = Some (File t)"
    and "rewrite t = (ALREADY_APPLIED, None)"
  shows "patch_file rel rewrite name self fs = (Returned ALREADY_APPLIED, self, fs)"
  using patch_file_on_file [of self root fs rel t rewrite name] assms by simp

lemma patch_loop_invariant:
  assumes "\<And>f self fs r self' fs'. f \<in> set patches \<Longrightarrow> I self fs \<Longrightarrow>
             f self fs = (r, self', fs') \<Longrightarrow> I self' fs'"
    and "I self fs" and "patch_loop patches n self fs = (r, self', fs')"
  shows "I self' fs'"
  using assms
proof (induction patches arbitrary: n self fs)
  case Nil
  then show ?case by simp
next
  case (Cons f patches)
  obtain r1 self1 fs1 where f: "f self fs = (r1, self1, fs1)"
    by (cases "f self fs")
  have I1: "I self1 fs1"
    using Cons.prems(1) [of f self fs r1 self1 fs1] Cons.prems(2) f by simp
  show ?case
  proof (cases r1)
    case Raised
    with f Cons.prems(3) I1 show ?thesis by simp
  next
    case (Returned outcome)
    with f Cons.prems(3) obtain n' where "patch_loop patches n' self1 fs1 = (r, self', fs')"
      by simp
    moreover have "I s' f'" if "g \<in> set patches" "I s f0" "g s f0 = (rr, s', f')"
      for g s f0 rr s' f'
      using Cons.prems(1) [of g s f0 rr s' f'] that by simp
    ultimately show ?thesis
      using Cons.IH [of self1 fs1 n'] I1 by blast
  qed
qed


lemma marked_kept_by_patch_file:
  assumes "patch_file rel rewrite name self fs = (r, self', fs')"
    and "pyhula_path self = Some root" and "fs (root @ rel0) = Some (File t)"
    and "root @ rel \<noteq> root @ rel0 \<or> rewrite t = (ALREADY_APPLIED, None)"
  shows "pyhula_path self' = Some root \<and> fs' (root @ rel0) = Some (File t)"
proof (cases "root @ rel = root @ rel0")
  case True
  with assms(3,4) have "patch_file rel rewrite name self fs = (Returned ALREADY_APPLIED, self, fs)"
    using patch_file_marked [of self root fs rel t rewrite name] assms(2) by simp
  with assms show ?thesis by simp
next
  case False
  then show ?thesis
    using patch_file_other [OF assms(1,2), of "root @ rel0"] patch_file_path [OF assms(1,2)]
      assms(3) by simp
qed

lemma marked_kept_by_patches:
  assumes "patch_loop [patch_mavlink_header, patch_udp_binding, patch_userapi_connection]
             n self fs = (r, self', fs')"
    and "pyhula_path self = Some root" and "fs (root @ rel0) = Some (File t)"
    and "(root @ rel0 = root @ mavlink_file \<longrightarrow> sublist pack_marker t) \<and>
         (root @ rel0 = root @ taskcontroller_file \<longrightarrow> sublist udp_marker t) \<and>
         (root @ rel0 = root @ userapi_file \<longrightarrow> sublist userapi_marker t)"
  shows "fs' (root @ rel0) = Some (File t)"
proof -
  let ?I = "\<lambda>self fs. pyhula_path self = Some root \<and> fs (root @ rel0) = Some (File t)"
  have "?I self' fs'"
  proof (rule patch_loop_invariant [where I = ?I, OF _ _ assms(1)])
    show "?I self fs" using assms(2,3) by simp
  next
    fix f s f0 rr s' f'
    assume f: "f \<in> set [patch_mavlink_header, patch_udp_binding, patch_userapi_connection]"
      and I: "?I s f0" and run: "f s f0 = (rr, s', f')"
    from f consider "f = patch_mavlink_header" | "f = patch_udp_binding"
      | "f = patch_userapi_connection" by auto
    then show "?I s' f'"
    proof cases
      case 1
      with run have "patch_file mavlink_file patch_mavlink_text ''mavlink_header_fix'' s f0 = (rr, s', f')"
        by (simp add: patch_mavlink_header_def)
      from marked_kept_by_patch_file [OF this, of root rel0 t] I assms(4) marked_texts(1) [of t]
      show ?thesis by blast
    next
      case 2
      with run have "patch_file taskcontroller_file patch_udp_text ''udp_binding_fix'' s f0 = (rr, s', f')"
        by (simp add: patch_udp_binding_def)
      from marked_kept_by_patch_file [OF this, of root rel0 t] I assms(4) marked_texts(2) [of t]
      show ?thesis by blast
    next
      case 3
      with run have "patch_file userapi_file patch_userapi_text ''userapi_connection_fix'' s f0 = (rr, s', f')"
        by (simp add: patch_userapi_connection_def)
      from marked_kept_by_patch_file [OF this, of root rel0 t] I assms(4) marked_texts(3) [of t]
      show ?thesis by blast
    qed
  qed
  then show ?thesis by simp
qed

lemma marked_kept_by_apply_all:
  assumes "rel0 \<in> set files_to_backup" and "fs (root @ rel0) = Some (File t)"
    and "(root @ rel0 = root @ mavlink_file \<longrightarrow> sublist pack_marker t) \<and>
         (root @ rel0 = root @ taskcontroller_file \<longrightarrow> sublist udp_marker t) \<and>
         (root @ rel0 = root @ userapi_file \<longrightarrow> sublist userapi_marker t)"
  shows "snd (snd (apply_all_patches (Some root) self fs)) (root @ rel0) = Some (File t)"
proof -
  let ?s0 = "self\<lparr>pyhula_path := Some root\<rparr>"
  obtain rb self2 fs2 where b: "create_backup ?s0 fs = (rb, self2, fs2)"
    by (cases "create_backup ?s0 fs")
  have p2: "pyhula_path self2 = Some root" and f2: "fs2 (root @ rel0) = Some (File t)"
    using create_backup_frame [OF b assms(1), of root] assms(2) by simp_all
  show ?thesis
  proof (cases "rb = Returned True")
    case False
    with b f2 show ?thesis
      by (cases rb) (auto simp: apply_all_patches_def find_pyhula_installation_def)
  next
    case True
    obtain r3 self3 fs3 where
      l: "patch_loop [patch_mavlink_header, patch_udp_binding, patch_userapi_connection]
            0 self2 fs2 = (r3, self3, fs3)"
      using prod_cases3 by blast
    from marked_kept_by_patches [OF l p2 f2 assms(3)] have "fs3 (root @ rel0) = Some (File t)" .
    with b True l show ?thesis
      by (cases r3) (auto simp: apply_all_patches_def find_pyhula_installation_def)
  qed
qed

lemma marked_kept_by_rerun:
  assumes "rel0 \<in> set files_to_backup" and "fs (root @ rel0) = Some (File t)"
    and "(root @ rel0 = root @ mavlink_file \<longrightarrow> sublist pack_marker t) \<and>
         (root @ rel0 = root @ taskcontroller_file \<longrightarrow> sublist udp_marker t) \<and>
         (root @ rel0 = root @ userapi_file \<longrightarrow> sublist userapi_marker t)"
  shows "rerun n (Some root) fs (root @ rel0) = Some (File t)"
  using assms(2)
proof (induction n arbitrary: fs)
  case 0
  then show ?case by simp
next
  case (Suc n)
  have "snd (snd (main_patch (Some root) fs)) (root @ rel0) = Some (File t)"
    unfolding main_patch_def
    using marked_kept_by_apply_all [where ?rel0.0 = rel0 and root = root and t = t and fs = fs]
      assms(1,3) Suc.prems by simp
  then show ?case
    using Suc.IH [of "snd (snd (main_patch (Some root) fs))"] by simp
qed

section \<open>Outcomes of a single patch\<close>

text \<open>
  C5. On an existing target file whose text holds neither the marker nor the pattern the
  method searches for (the opening pattern of \<^verbatim>\<open>pack\<close>, each of the four bind
  variants, the signature of \<^verbatim>\<open>connect\<close>), each patch method returns through its
  pattern-not-found exit and leaves the patcher and the file system, hence the file, as
  they were.
\<close>

theorem pattern_miss_no_write:
  assumes "pyhula_path self = Some root"
  shows
   "(fs (root @ mavlink_file) = Some (File content) \<and>
     \<not> sublist pack_marker content \<and> \<not> sublist original_pack_pattern content \<longrightarrow>
       patch_mavlink_header self fs = (Returned PATTERN_NOT_FOUND, self, fs)) \<and>
    (fs (root @ taskcontroller_file) = Some (File content) \<and>
     \<not> sublist udp_marker content \<and>
     (\<forall>pattern\<in>set udp_bind_patterns. \<not> sublist pattern content) \<longrightarrow>
       patch_udp_binding self fs = (Returned PATTERN_NOT_FOUND, self, fs)) \<and>
    (fs (root @ userapi_file) = Some (File content) \<and>
     \<not> sublist userapi_marker content \<and> \<not> sublist connect_pattern content \<longrightarrow>
       patch_userapi_connection self fs = (Returned PATTERN_NOT_FOUND, self, fs))"
  using assms
  by (auto simp: patch_mavlink_header_def patch_udp_binding_def patch_userapi_connection_def
      patch_file_on_file patch_mavlink_text_def patch_udp_text_def patch_userapi_text_def
      udp_loop_None)

lemma short_text_no_pattern:
  "\<not> sublist pack_marker (str ''import struct'')"
  "\<not> sublist original_pack_pattern (str ''import struct'')"
  "\<not> sublist udp_marker (str ''import socket'')"
  "\<forall>pattern\<in>set udp_bind_patterns. \<not> sublist pattern (str ''import socket'')"
  "\<not> sublist userapi_marker (str ''import os'')"
  "\<not> sublist connect_pattern (str ''import os'')"
  by (simp_all add: py_eval pack_marker_def udp_marker_def userapi_marker_def
      original_pack_pattern_def udp_bind_patterns_def)

lemma other_fs_files:
  "other_fs (fixture_root @ mavlink_file) = Some (File (str ''import struct''))"
  "other_fs (fixture_root @ taskcontroller_file) = Some (File (str ''import socket''))"
  "other_fs (fixture_root @ userapi_file) = Some (File (str ''import os''))"
  by (simp_all add: other_fs_def fixture_root_def mavlink_file_def taskcontroller_file_def
      userapi_file_def)

theorem pattern_miss_no_write_witness:
  "patch_mavlink_header fixture_patcher other_fs =
     (Returned PATTERN_NOT_FOUND, fixture_patcher, other_fs) \<and>
   patch_udp_binding fixture_patcher other_fs =
     (Returned PATTERN_NOT_FOUND, fixture_patcher, other_fs) \<and>
   patch_userapi_connection fixture_patcher other_fs =
     (Returned PATTERN_NOT_FOUND, fixture_patcher, other_fs)"
proof -
  have root: "pyhula_path fixture_patcher = Some fixture_root"
    by (simp add: fixture_patcher_def)
  show ?thesis
    using pattern_miss_no_write [OF root, of other_fs "str ''import struct''"]
      pattern_miss_no_write [OF root, of other_fs "str ''import socket''"]
      pattern_miss_no_write [OF root, of other_fs "str ''import os''"]
      short_text_no_pattern other_fs_files
    by simp
qed

text \<open>
  C9. A patcher on which \<^verbatim>\<open>create_backup\<close> has not run has no backup directory
  stored; \<^verbatim>\<open>find_pyhula_installation\<close> does not store one. So
  \<^verbatim>\<open>restore_backup\<close> returns \<^verbatim>\<open>False\<close> and leaves the file system as it was,
  whatever the backup tree holds, and so does the restore mode of \<^verbatim>\<open>main\<close>, on every
  file system, whether or not the package is found.
\<close>

theorem restore_mode_never_restores:
  "restore_backup found (self\<lparr>backup_dir := None\<rparr>) fs = (Returned False, fs) \<and>
   backup_dir (snd (find_pyhula_installation installed init_patcher)) = None \<and>
   main_restore installed found fs = (Returned False, fs)"
  by (cases installed)
    (simp_all add: main_restore_def find_pyhula_installation_def init_patcher_def
      restore_backup_def)

text \<open>
  C2. When a patch method returns through its applied exit, the text it has written holds
  the marker of that patch. The same method, run again by the same patcher or by any
  patcher that has located the same installation, returns through its already-applied exit
  and leaves patcher and file system as they were; and after any number of further runs of
  the whole patch pass the file still holds the text of the first apply.
\<close>

theorem reapply_is_noop:
  "(patch_mavlink_header self fs = (Returned APPLIED, self1, fs1) \<longrightarrow>
      (\<exists>root t. pyhula_path self = Some root \<and>
         fs1 (root @ mavlink_file) = Some (File t) \<and> sublist pack_marker t \<and>
         patch_mavlink_header self1 fs1 = (Returned ALREADY_APPLIED, self1, fs1) \<and>
         patch_mavlink_header (init_patcher\<lparr>pyhula_path := Some root\<rparr>) fs1 =
           (Returned ALREADY_APPLIED, init_patcher\<lparr>pyhula_path := Some root\<rparr>, fs1) \<and>
         (\<forall>n. rerun n (Some root) fs1 (root @ mavlink_file) = Some (File t)))) \<and>
   (patch_udp_binding self fs = (Returned APPLIED, self1, fs1) \<longrightarrow>
      (\<exists>root t. pyhula_path self = Some root \<and>
         fs1 (root @ taskcontroller_file) = Some (File t) \<and> sublist udp_marker t \<and>
         patch_udp_binding self1 fs1 = (Returned ALREADY_APPLIED, self1, fs1) \<and>
         patch_udp_binding (init_patcher\<lparr>pyhula_path := Some root\<rparr>) fs1 =
           (Returned ALREADY_APPLIED, init_patcher\<lparr>pyhula_path := Some root\<rparr>, fs1) \<and>
         (\<forall>n. rerun n (Some root) fs1 (root @ taskcontroller_file) = Some (File t)))) \<and>
   (patch_userapi_connection self fs = (Returned APPLIED, self1, fs1) \<longrightarrow>
      (\<exists>root t. pyhula_path self = Some root \<and>
         fs1 (root @ userapi_file) = Some (File t) \<and> sublist userapi_marker t \<and>
         patch_userapi_connection self1 fs1 = (Returned ALREADY_APPLIED, self1, fs1) \<and>
         patch_userapi_connection (init_patcher\<lparr>pyhula_path := Some root\<rparr>) fs1 =
           (Returned ALREADY_APPLIED, init_patcher\<lparr>pyhula_path := Some root\<rparr>, fs1) \<and>
         (\<forall>n. rerun n (Some root) fs1 (root @ userapi_file) = Some (File t))))"
proof (intro conjI impI)
  assume a: "patch_mavlink_header self fs = (Returned APPLIED, self1, fs1)"
  then obtain root t where r: "pyhula_path self = Some root" "pyhula_path self1 = Some root"
    "fs1 (root @ mavlink_file) = Some (File t)" "sublist pack_marker t"
    using patch_file_applied [of mavlink_file patch_mavlink_text _ self fs self1 fs1 pack_marker]
      mavlink_applied_text
    unfolding patch_mavlink_header_def by blast
  have again: "patch_mavlink_header s fs1 = (Returned ALREADY_APPLIED, s, fs1)"
    if "pyhula_path s = Some root" for s
    unfolding patch_mavlink_header_def
    using patch_file_marked [of s root fs1 mavlink_file t patch_mavlink_text] that r(3,4)
      marked_texts(1) by simp
  have "rerun n (Some root) fs1 (root @ mavlink_file) = Some (File t)" for n
    using marked_kept_by_rerun [where ?rel0.0 = mavlink_file and root = root and t = t and fs = fs1]
      target_files(1) r(3,4) target_paths_distinct by simp
  with r again [of self1] again [of "init_patcher\<lparr>pyhula_path := Some root\<rparr>"]
  show "\<exists>root t. pyhula_path self = Some root \<and>
         fs1 (root @ mavlink_file) = Some (File t) \<and> sublist pack_marker t \<and>
         patch_mavlink_header self1 fs1 = (Returned ALREADY_APPLIED, self1, fs1) \<and>
         patch_mavlink_header (init_patcher\<lparr>pyhula_path := Some root\<rparr>) fs1 =
           (Returned ALREADY_APPLIED, init_patcher\<lparr>pyhula_path := Some root\<rparr>, fs1) \<and>
         (\<forall>n. rerun n (Some root) fs1 (root @ mavlink_file) = Some (File t))"
    by auto
next
  assume a: "patch_udp_binding self fs = (Returned APPLIED, self1, fs1)"
  then obtain root t where r: "pyhula_path self = Some root" "pyhula_path self1 = Some root"
    "fs1 (root @ taskcontroller_file) = Some (File t)" "sublist udp_marker t"
    using patch_file_applied [of taskcontroller_file patch_udp_text _ self fs self1 fs1 udp_marker]
      udp_applied_text
    unfolding patch_udp_binding_def by blast
  have again: "patch_udp_binding s fs1 = (Returned ALREADY_APPLIED, s, fs1)"
    if "pyhula_path s = Some root" for s
    unfolding patch_udp_binding_def
    using patch_file_marked [of s root fs1 taskcontroller_file t patch_udp_text] that r(3,4)
      marked_texts(2) by simp
  have "rerun n (Some root) fs1 (root @ taskcontroller_file) = Some (File t)" for n
    using marked_kept_by_rerun [where ?rel0.0 = taskcontroller_file and root = root and t = t
        and fs = fs1]
      target_files(2) r(3,4) target_paths_distinct by simp
  with r again [of self1] again [of "init_patcher\<lparr>pyhula_path := Some root\<rparr>"]
  show "\<exists>root t. pyhula_path self = Some root \<and>
         fs1 (root @ taskcontroller_file) = Some (File t) \<and> sublist udp_marker t \<and>
         patch_udp_binding self1 fs1 = (Returned ALREADY_APPLIED, self1, fs1) \<and>
         patch_udp_binding (init_patcher\<lparr>pyhula_path := Some root\<rparr>) fs1 =
           (Returned ALREADY_APPLIED, init_patcher\<lparr>pyhula_path := Some root\<rparr>, fs1) \<and>
         (\<forall>n. rerun n (Some root) fs1 (root @ taskcontroller_file) = Some (File t))"
    by auto
next
  assume a: "patch_userapi_connection self fs = (Returned APPLIED, self1, fs1)"
  then obtain root t where r: "pyhula_path self = Some root" "pyhula_path self1 = Some root"
    "fs1 (root @ userapi_file) = Some (File t)" "sublist userapi_marker t"
    using patch_file_applied [of userapi_file patch_userapi_text _ self fs self1 fs1 userapi_marker]
      userapi_applied_text
    unfolding patch_userapi_connection_def by blast
  have again: "patch_userapi_connection s fs1 = (Returned ALREADY_APPLIED, s, fs1)"
    if "pyhula_path s = Some root" for s
    unfolding patch_userapi_connection_def
    using patch_file_marked [of s root fs1 userapi_file t patch_userapi_text] that r(3,4)
      marked_texts(3) by simp
  have "rerun n (Some root) fs1 (root @ userapi_file) = Some (File t)" for n
    using marked_kept_by_rerun [where ?rel0.0 = userapi_file and root = root and t = t and fs = fs1]
      target_files(3) r(3,4) target_paths_distinct by simp
  with r again [of self1] again [of "init_patcher\<lparr>pyhula_path := Some root\<rparr>"]
  show "\<exists>root t. pyhula_path self = Some root \<and>
         fs1 (root @ userapi_file) = Some (File t) \<and> sublist userapi_marker t \<and>
         patch_userapi_connection self1 fs1 = (Returned ALREADY_APPLIED, self1, fs1) \<and>
         patch_userapi_connection (init_patcher\<lparr>pyhula_path := Some root\<rparr>) fs1 =
           (Returned ALREADY_APPLIED, init_patcher\<lparr>pyhula_path := Some root\<rparr>, fs1) \<and>
         (\<forall>n. rerun n (Some root) fs1 (root @ userapi_file) = Some (File t))"
    by auto
qed

lemma fixture_fs_files:
  "fixture_fs (fixture_root @ mavlink_file) = Some (File fixture_mavlink)"
  "fixture_fs (fixture_root @ taskcontroller_file) = Some (File fixture_taskcontroller)"
  "fixture_fs (fixture_root @ userapi_file) = Some (File fixture_userapi)"
  by (simp_all add: fixture_fs_def fixture_root_def mavlink_file_def taskcontroller_file_def
      userapi_file_def)

lemma fixture_mavlink_text:
  "\<not> sublist pack_marker fixture_mavlink" "sublist original_pack_pattern fixture_mavlink"
  by (simp_all add: py_eval pack_marker_def fixture_mavlink_def original_pack_pattern_def)

lemma fixture_taskcontroller_text:
  "\<not> sublist udp_marker fixture_taskcontroller"
  "sublist (udp_bind_patterns ! 0) fixture_taskcontroller"
  by (simp_all add: py_eval udp_marker_def fixture_taskcontroller_def udp_bind_patterns_def)

lemma fixture_userapi_text:
  "\<not> sublist userapi_marker fixture_userapi" "sublist connect_pattern fixture_userapi"
  by (simp_all add: py_eval userapi_marker_def fixture_userapi_def)

lemma fixture_patches_apply:
  "fst (patch_mavlink_header fixture_patcher fixture_fs) = Returned APPLIED"
  "fst (patch_udp_binding fixture_patcher fixture_fs) = Returned APPLIED"
  "fst (patch_userapi_connection fixture_patcher fixture_fs) = Returned APPLIED"
proof -
  have root: "pyhula_path fixture_patcher = Some fixture_root"
    by (simp add: fixture_patcher_def)
  show "fst (patch_mavlink_header fixture_patcher fixture_fs) = Returned APPLIED"
    unfolding patch_mavlink_header_def
    using patch_file_on_file [of fixture_patcher fixture_root fixture_fs mavlink_file fixture_mavlink]
      root fixture_fs_files(1) fixture_mavlink_text
    by (simp add: patch_mavlink_text_def)
  have "udp_loop udp_bind_patterns fixture_taskcontroller \<noteq> None"
    using fixture_taskcontroller_text(2) by (simp add: udp_bind_patterns_def)
  then show "fst (patch_udp_binding fixture_patcher fixture_fs) = Returned APPLIED"
    unfolding patch_udp_binding_def
    using patch_file_on_file [of fixture_patcher fixture_root fixture_fs taskcontroller_file fixture_taskcontroller]
      root fixture_fs_files(2) fixture_taskcontroller_text(1)
    by (auto simp: patch_udp_text_def)
  show "fst (patch_userapi_connection fixture_patcher fixture_fs) = Returned APPLIED"
    unfolding patch_userapi_connection_def
    using patch_file_on_file [of fixture_patcher fixture_root fixture_fs userapi_file fixture_userapi]
      root fixture_fs_files(3) fixture_userapi_text
    by (simp add: patch_userapi_text_def)
qed

theorem reapply_is_noop_witness:
  "fst (patch_mavlink_header fixture_patcher fixture_fs) = Returned APPLIED \<and>
   patch_mavlink_header
     (fst (snd (patch_mavlink_header fixture_patcher fixture_fs)))
     (snd (snd (patch_mavlink_header fixture_patcher fixture_fs))) =
   (Returned ALREADY_APPLIED, snd (patch_mavlink_header fixture_patcher fixture_fs)) \<and>
   rerun 3 (Some fixture_root) (snd (snd (patch_mavlink_header fixture_patcher fixture_fs)))
     (fixture_root @ mavlink_file) =
   snd (snd (patch_mavlink_header fixture_patcher fixture_fs)) (fixture_root @ mavlink_file) \<and>
   fst (patch_udp_binding fixture_patcher fixture_fs) = Returned APPLIED \<and>
   patch_udp_binding
     (fst (snd (patch_udp_binding fixture_patcher fixture_fs)))
     (snd (snd (patch_udp_binding fixture_patcher fixture_fs))) =
   (Returned ALREADY_APPLIED, snd (patch_udp_binding fixture_patcher fixture_fs)) \<and>
   fst (patch_userapi_connection fixture_patcher fixture_fs) = Returned APPLIED \<and>
   patch_userapi_connection
     (fst (snd (patch_userapi_connection fixture_patcher fixture_fs)))
     (snd (snd (patch_userapi_connection fixture_patcher fixture_fs))) =
   (Returned ALREADY_APPLIED, snd (patch_userapi_connection fixture_patcher fixture_fs))"
proof -
  have root: "pyhula_path fixture_patcher = Some fixture_root"
    by (simp add: fixture_patcher_def)
  let ?m = "patch_mavlink_header fixture_patcher fixture_fs"
  let ?u = "patch_udp_binding fixture_patcher fixture_fs"
  let ?c = "patch_userapi_connection fixture_patcher fixture_fs"
  have m: "?m = (Returned APPLIED, fst (snd ?m), snd (snd ?m))"
    and u: "?u = (Returned APPLIED, fst (snd ?u), snd (snd ?u))"
    and c: "?c = (Returned APPLIED, fst (snd ?c), snd (snd ?c))"
    using fixture_patches_apply by (simp_all add: prod_eq_iff)
  note again = reapply_is_noop [of fixture_patcher fixture_fs]
  from again [of "fst (snd ?m)" "snd (snd ?m)", THEN conjunct1, rule_format, OF m]
  have 1: "patch_mavlink_header (fst (snd ?m)) (snd (snd ?m)) = (Returned ALREADY_APPLIED, snd ?m)"
    and 2: "rerun 3 (Some fixture_root) (snd (snd ?m)) (fixture_root @ mavlink_file) =
      snd (snd ?m) (fixture_root @ mavlink_file)"
    using root by auto
  from again [of "fst (snd ?u)" "snd (snd ?u)", THEN conjunct2, THEN conjunct1, rule_format, OF u]
  have 3: "patch_udp_binding (fst (snd ?u)) (snd (snd ?u)) = (Returned ALREADY_APPLIED, snd ?u)"
    by auto
  from again [of "fst (snd ?c)" "snd (snd ?c)", THEN conjunct2, THEN conjunct2, rule_format, OF c]
  have 4: "patch_userapi_connection (fst (snd ?c)) (snd (snd ?c)) =
      (Returned ALREADY_APPLIED, snd ?c)"
    by auto
  show ?thesis
    using fixture_patches_apply 1 2 3 4 by simp
qed

section \<open>The patch pass\<close>

lemma patch_file_step:
  assumes "pyhula_path self = Some root" and "pyhula_path selfa = Some root"
    and "fsa (root @ rel) = fs (root @ rel)" and "fs (root @ rel) \<noteq> Some Dir"
    and "patch_file rel rewrite name self fs = (r, s1, f1)"
  shows "\<exists>outcome sa fa. r = Returned outcome \<and>
           patch_file rel rewrite name selfa fsa = (Returned outcome, sa, fa) \<and>
           pyhula_path sa = Some root \<and> fa (root @ rel) = f1 (root @ rel) \<and>
           (\<forall>q. q \<noteq> root @ rel \<longrightarrow> fa q = fsa q)"
proof -
  obtain ra sa fa where a: "patch_file rel rewrite name selfa fsa = (ra, sa, fa)"
    by (cases "patch_file rel rewrite name selfa fsa")
  have "ra = r" and "fa (root @ rel) = f1 (root @ rel)"
    using patch_file_local [where self = self and selfa = selfa and root = root and rel = rel
        and fs = fs and fsa = fsa and rewrite = rewrite and name = name] a assms
    by simp_all
  moreover obtain outcome where "r = Returned outcome"
    using patch_file_no_dir [where self = self and root = root and rel = rel and fs = fs
        and rewrite = rewrite and name = name] assms(1,4,5) by (cases r) auto
  moreover have "pyhula_path sa = Some root"
    using patch_file_path [OF a assms(2)] .
  moreover have "\<forall>q. q \<noteq> root @ rel \<longrightarrow> fa q = fsa q"
    using patch_file_other [OF a assms(2)] by blast
  ultimately show ?thesis
    using a by blast
qed

text \<open>
  C7. Take a run of \<^verbatim>\<open>apply_all_patches\<close> that has found the installation and made
  its backup, on a file system where no target path is a directory. Then every one of the
  three patch methods is run, in the fixed order, and each behaves as it does alone on the
  file system the run started from: it returns through the same exit and leaves its file
  with the same text, whatever the exits of the other two. The run returns \<^verbatim>\<open>True\<close>
  exactly when the number of methods that returned \<^verbatim>\<open>True\<close> is positive.
\<close>

theorem apply_steps_independent:
  assumes backup: "create_backup (self\<lparr>pyhula_path := Some root\<rparr>) fs = (Returned True, self2, fs2)"
    and nodir: "\<forall>rel\<in>set files_to_backup. fs (root @ rel) \<noteq> Some Dir"
    and m: "patch_mavlink_header (self\<lparr>pyhula_path := Some root\<rparr>) fs = (r1, s1, f1)"
    and u: "patch_udp_binding (self\<lparr>pyhula_path := Some root\<rparr>) fs = (r2, s2, f2)"
    and c: "patch_userapi_connection (self\<lparr>pyhula_path := Some root\<rparr>) fs = (r3, s3, f3)"
  shows "\<exists>o1 o2 o3 self' fs'.
     r1 = Returned o1 \<and> r2 = Returned o2 \<and> r3 = Returned o3 \<and>
     apply_all_patches (Some root) self fs =
       (Returned (0 < length (filter returned [o1, o2, o3])), self', fs') \<and>
     fs' (root @ mavlink_file) = f1 (root @ mavlink_file) \<and>
     fs' (root @ taskcontroller_file) = f2 (root @ taskcontroller_file) \<and>
     fs' (root @ userapi_file) = f3 (root @ userapi_file)"
proof -
  let ?s0 = "self\<lparr>pyhula_path := Some root\<rparr>"
  have p0: "pyhula_path ?s0 = Some root" by simp
  have p2: "pyhula_path self2 = Some root"
    using create_backup_frame(2) [OF backup target_files(1) p0] .
  have same: "fs2 (root @ rel) = fs (root @ rel)" if "rel \<in> set files_to_backup" for rel
    using create_backup_frame(1) [OF backup that p0] .
  have nd: "fs (root @ mavlink_file) \<noteq> Some Dir" "fs (root @ taskcontroller_file) \<noteq> Some Dir"
    "fs (root @ userapi_file) \<noteq> Some Dir"
    using nodir target_files by blast+
  from patch_file_step [where self = ?s0 and selfa = self2 and root = root
      and rel = mavlink_file and fs = fs and fsa = fs2 and r = r1 and ?s1.0 = s1 and ?f1.0 = f1
      and rewrite = patch_mavlink_text and name = "''mavlink_header_fix''"]
    p0 p2 same [OF target_files(1)] nd(1) m
  obtain o1 sa fa where a: "r1 = Returned o1" "patch_mavlink_header self2 fs2 = (Returned o1, sa, fa)"
    "pyhula_path sa = Some root" "fa (root @ mavlink_file) = f1 (root @ mavlink_file)"
    "\<forall>q. q \<noteq> root @ mavlink_file \<longrightarrow> fa q = fs2 q"
    unfolding patch_mavlink_header_def by blast
  have "fa (root @ taskcontroller_file) = fs (root @ taskcontroller_file)"
    using a(5) same [OF target_files(2)] target_paths_distinct(1) [of root] by metis
  from patch_file_step [where self = ?s0 and selfa = sa and root = root
      and rel = taskcontroller_file and fs = fs and fsa = fa and r = r2 and ?s1.0 = s2
      and ?f1.0 = f2 and rewrite = patch_udp_text and name = "''udp_binding_fix''"]
    p0 a(3) this nd(2) u
  obtain o2 sb fb where b: "r2 = Returned o2" "patch_udp_binding sa fa = (Returned o2, sb, fb)"
    "pyhula_path sb = Some root" "fb (root @ taskcontroller_file) = f2 (root @ taskcontroller_file)"
    "\<forall>q. q \<noteq> root @ taskcontroller_file \<longrightarrow> fb q = fa q"
    unfolding patch_udp_binding_def by blast
  have "fb (root @ userapi_file) = fs (root @ userapi_file)"
    using a(5) b(5) same [OF target_files(3)] target_paths_distinct(2,3) [of root] by metis
  from patch_file_step [where self = ?s0 and selfa = sb and root = root
      and rel = userapi_file and fs = fs and fsa = fb and r = r3 and ?s1.0 = s3
      and ?f1.0 = f3 and rewrite = patch_userapi_text and name = "''userapi_connection_fix''"]
    p0 b(3) this nd(3) c
  obtain o3 sc fc where c': "r3 = Returned o3" "patch_userapi_connection sb fb = (Returned o3, sc, fc)"
    "pyhula_path sc = Some root" "fc (root @ userapi_file) = f3 (root @ userapi_file)"
    "\<forall>q. q \<noteq> root @ userapi_file \<longrightarrow> fc q = fb q"
    unfolding patch_userapi_connection_def by blast
  have loop: "patch_loop [patch_mavlink_header, patch_udp_binding, patch_userapi_connection]
       0 self2 fs2 =
     (Returned ((if returned o1 then 1 else 0) + (if returned o2 then 1 else 0) +
        (if returned o3 then 1 else 0)), sc, fc)"
    using a(2) b(2) c'(2) by simp
  have run: "apply_all_patches (Some root) self fs =
      (Returned (0 < length (filter returned [o1, o2, o3])), sc, fc)"
    using backup loop by (simp add: apply_all_patches_def find_pyhula_installation_def)
  have "fc (root @ mavlink_file) = f1 (root @ mavlink_file)"
    using a(4) b(5) c'(5) target_paths_distinct [of root] by metis
  moreover have "fc (root @ taskcontroller_file) = f2 (root @ taskcontroller_file)"
    using b(4) c'(5) target_paths_distinct [of root] by metis
  ultimately show ?thesis
    using a(1) b(1) c'(1) c'(4) run by blast
qed

lemmas fs_eval =
  create_backup_def backup_loop.simps mkdir_def mkdir_parents.simps copy2_def write_text_def
  path_exists_def read_text_def files_to_backup_def mavlink_file_def taskcontroller_file_def
  userapi_file_def fixture_root_def fixture_patcher_def init_patcher_def fixture_dirs_def
  Let_def

lemma fixture_backup:
  "fst (create_backup fixture_patcher fixture_fs) = Returned True"
  "fst (create_backup fixture_patcher other_fs) = Returned True"
  by (simp_all add: fs_eval fixture_fs_def other_fs_def)

lemma other_patches_miss:
  "fst (patch_mavlink_header fixture_patcher other_fs) = Returned PATTERN_NOT_FOUND"
  "fst (patch_udp_binding fixture_patcher other_fs) = Returned PATTERN_NOT_FOUND"
  "fst (patch_userapi_connection fixture_patcher other_fs) = Returned PATTERN_NOT_FOUND"
proof -
  have root: "pyhula_path fixture_patcher = Some fixture_root"
    by (simp add: fixture_patcher_def)
  show "fst (patch_mavlink_header fixture_patcher other_fs) = Returned PATTERN_NOT_FOUND"
    unfolding patch_mavlink_header_def
    using patch_file_on_file [of fixture_patcher fixture_root other_fs mavlink_file
        "str ''import struct''"] root other_fs_files(1) short_text_no_pattern(1,2)
    by (simp add: patch_mavlink_text_def)
  show "fst (patch_udp_binding fixture_patcher other_fs) = Returned PATTERN_NOT_FOUND"
    unfolding patch_udp_binding_def
    using patch_file_on_file [of fixture_patcher fixture_root other_fs taskcontroller_file
        "str ''import socket''"] root other_fs_files(2) short_text_no_pattern(3,4)
    by (simp add: patch_udp_text_def udp_loop_None)
  show "fst (patch_userapi_connection fixture_patcher other_fs) = Returned PATTERN_NOT_FOUND"
    unfolding patch_userapi_connection_def
    using patch_file_on_file [of fixture_patcher fixture_root other_fs userapi_file
        "str ''import os''"] root other_fs_files(3) short_text_no_pattern(5,6)
    by (simp add: patch_userapi_text_def)
qed

theorem apply_steps_independent_witness:
  "fst (apply_all_patches (Some fixture_root) fixture_patcher fixture_fs) = Returned True \<and>
   fst (apply_all_patches (Some fixture_root) fixture_patcher other_fs) = Returned False"
proof -
  have s0: "fixture_patcher\<lparr>pyhula_path := Some fixture_root\<rparr> = fixture_patcher"
    by (simp add: fixture_patcher_def)
  have run: "\<exists>o1 o2 o3 self' fs'.
      fst (patch_mavlink_header fixture_patcher fs) = Returned o1 \<and>
      fst (patch_udp_binding fixture_patcher fs) = Returned o2 \<and>
      fst (patch_userapi_connection fixture_patcher fs) = Returned o3 \<and>
      apply_all_patches (Some fixture_root) fixture_patcher fs =
        (Returned (0 < length (filter returned [o1, o2, o3])), self', fs')"
    if b: "fst (create_backup fixture_patcher fs) = Returned True"
      and d: "\<forall>rel\<in>set files_to_backup. fs (fixture_root @ rel) \<noteq> Some Dir" for fs
  proof -
    let ?b = "create_backup fixture_patcher fs"
    let ?m = "patch_mavlink_header fixture_patcher fs"
    let ?u = "patch_udp_binding fixture_patcher fs"
    let ?c = "patch_userapi_connection fixture_patcher fs"
    have "create_backup (fixture_patcher\<lparr>pyhula_path := Some fixture_root\<rparr>) fs =
        (Returned True, fst (snd ?b), snd (snd ?b))"
      using b unfolding s0 by (simp add: prod_eq_iff)
    from apply_steps_independent [OF this d, of "fst ?m" "fst (snd ?m)" "snd (snd ?m)"
        "fst ?u" "fst (snd ?u)" "snd (snd ?u)" "fst ?c" "fst (snd ?c)" "snd (snd ?c)"]
    show ?thesis
      unfolding s0 by auto
  qed
  have d1: "\<forall>rel\<in>set files_to_backup. fixture_fs (fixture_root @ rel) \<noteq> Some Dir"
    and d2: "\<forall>rel\<in>set files_to_backup. other_fs (fixture_root @ rel) \<noteq> Some Dir"
    by (simp_all add: fs_eval fixture_fs_def other_fs_def)
  from run [OF fixture_backup(1) d1] fixture_patches_apply
  have 1: "fst (apply_all_patches (Some fixture_root) fixture_patcher fixture_fs) = Returned True"
    by auto
  from run [OF fixture_backup(2) d2] other_patches_miss
  have 2: "fst (apply_all_patches (Some fixture_root) fixture_patcher other_fs) = Returned False"
    by auto
  from 1 2 show ?thesis ..
qed

section \<open>Backup before mutation\<close>

lemma backup_loop_keeps:
  "backup_loop root bdir rels fs = (r, fs') \<Longrightarrow> fs q \<noteq> None \<Longrightarrow>
   \<forall>rel\<in>set rels. q \<noteq> bdir @ rel \<and> q \<noteq> bdir @ rel @ [last (root @ rel)] \<Longrightarrow>
   fs' q = fs q"
proof (induction rels arbitrary: fs)
  case Nil
  then show ?case by simp
next
  case (Cons rel rels)
  show ?case
  proof (cases "path_exists fs (root @ rel)")
    case False
    with Cons.prems have "backup_loop root bdir rels fs = (r, fs')" by simp
    from Cons.IH [OF this Cons.prems(2)] Cons.prems(3) show ?thesis by simp
  next
    case True
    show ?thesis
    proof (cases "mkdir_parents fs (butlast (bdir @ rel))")
      case None
      with True Cons.prems show ?thesis by simp
    next
      case (Some fs1)
      have f1: "fs1 q = fs q"
        using mkdir_parents_frame [OF Some, of q] Cons.prems(2) by auto
      show ?thesis
      proof (cases "copy2 fs1 (root @ rel) (bdir @ rel)")
        case None
        with True Some Cons.prems have "fs' = fs1" by simp
        with f1 show ?thesis by simp
      next
        case (Some fs2)
        from copy2_Some [OF Some] Cons.prems(3) have f2: "fs2 q = fs1 q"
          by auto
        from True \<open>mkdir_parents fs (butlast (bdir @ rel)) = Some fs1\<close> Some Cons.prems
        have "backup_loop root bdir rels fs2 = (r, fs')" by simp
        from Cons.IH [OF this] f1 f2 Cons.prems(2,3) show ?thesis by simp
      qed
    qed
  qed
qed

lemma backup_loop_copies:
  assumes "backup_loop root bdir rels fs = (Returned (), fs')"
    and "rel \<in> set rels" and "fs (root @ rel) \<noteq> None"
    and "distinct rels" and "\<forall>a\<in>set rels. \<forall>b\<in>set rels. a \<noteq> b \<longrightarrow> \<not> prefix a b"
    and "\<forall>a\<in>set rels. \<not> prefix bdir (root @ a) \<and> a \<noteq> []"
  shows "\<exists>t. fs (root @ rel) = Some (File t) \<and>
    (fs' (bdir @ rel) = Some (File t) \<or> fs' (bdir @ rel @ [last rel]) = Some (File t))"
  using assms
proof (induction rels arbitrary: fs)
  case Nil
  then show ?case by simp
next
  case (Cons rel0 rels)
  have out: "\<not> prefix bdir (root @ rel)"
    using Cons.prems(2,6) by auto
  show ?case
  proof (cases "path_exists fs (root @ rel0)")
    case False
    with Cons.prems(3) have ne: "rel \<noteq> rel0" by (auto simp: path_exists_def)
    from False Cons.prems(1) have "backup_loop root bdir rels fs = (Returned (), fs')" by simp
    from Cons.IH [OF this] ne Cons.prems(2-6) show ?thesis by simp
  next
    case True
    then obtain fs1 where m: "mkdir_parents fs (butlast (bdir @ rel0)) = Some fs1"
      using Cons.prems(1) by (cases "mkdir_parents fs (butlast (bdir @ rel0))") auto
    with True obtain fs2 where c: "copy2 fs1 (root @ rel0) (bdir @ rel0) = Some fs2"
      using Cons.prems(1) by (cases "copy2 fs1 (root @ rel0) (bdir @ rel0)") auto
    from True m c Cons.prems(1) have rest: "backup_loop root bdir rels fs2 = (Returned (), fs')"
      by simp
    have f1: "fs1 q = fs q" if "fs q \<noteq> None" for q
      using mkdir_parents_frame [OF m, of q] that by auto
    from copy2_Some [OF c] obtain t0 where t0: "fs1 (root @ rel0) = Some (File t0)"
      and fs2: "fs2 = fs1(bdir @ rel0 \<mapsto> File t0) \<or>
                fs2 = fs1(bdir @ rel0 @ [last (root @ rel0)] \<mapsto> File t0)"
      by auto
    have l0: "last (root @ rel0) = last rel0"
      using Cons.prems(6) by simp
    show ?thesis
    proof (cases "rel = rel0")
      case True
      have src: "fs (root @ rel) = Some (File t0)"
        using f1 [of "root @ rel0"] t0 True Cons.prems(3) by simp
      from fs2 have "fs2 (bdir @ rel0) = Some (File t0) \<or>
          fs2 (bdir @ rel0 @ [last rel0]) = Some (File t0)"
        unfolding l0 by fastforce
      then obtain d where d: "d = bdir @ rel0 \<or> d = bdir @ rel0 @ [last rel0]"
        and fd: "fs2 d = Some (File t0)"
        by blast
      have "\<forall>a\<in>set rels. d \<noteq> bdir @ a \<and> d \<noteq> bdir @ a @ [last (root @ a)]"
      proof
        fix a assume a: "a \<in> set rels"
        with Cons.prems(4) have ne: "a \<noteq> rel0" by auto
        with a Cons.prems(5) have "\<not> prefix a rel0" "\<not> prefix rel0 a" by auto
        then show "d \<noteq> bdir @ a \<and> d \<noteq> bdir @ a @ [last (root @ a)]"
          using d ne by (auto simp: prefix_def)
      qed
      from backup_loop_keeps [OF rest _ this] fd have "fs' d = Some (File t0)" by simp
      with d src True show ?thesis by auto
    next
      case False
      have "fs2 (root @ rel) = fs1 (root @ rel)"
        using fs2 out by (auto simp: prefix_def)
      then have same: "fs2 (root @ rel) = fs (root @ rel)"
        using f1 [of "root @ rel"] Cons.prems(3) by simp
      from Cons.IH [OF rest] False Cons.prems(2-6) same show ?thesis by simp
    qed
  qed
qed

lemma files_to_backup_shape:
  "distinct files_to_backup"
  "\<forall>a\<in>set files_to_backup. \<forall>b\<in>set files_to_backup. a \<noteq> b \<longrightarrow> \<not> prefix a b"
  "\<forall>a\<in>set files_to_backup. \<not> prefix (root @ [''original_backup'']) (root @ a) \<and> a \<noteq> []"
  by (simp_all add: files_to_backup_def)

lemma create_backup_copies:
  assumes "create_backup self fs = (Returned True, self', fs')"
    and "pyhula_path self = Some root" and "rel \<in> set files_to_backup"
    and "fs (root @ rel) \<noteq> None"
  shows "\<exists>t. fs (root @ rel) = Some (File t) \<and>
    (fs' (root @ [''original_backup''] @ rel) = Some (File t) \<or>
     fs' (root @ [''original_backup''] @ rel @ [last rel]) = Some (File t))"
proof -
  let ?bdir = "root @ [''original_backup'']"
  obtain fs1 where fs1: "(if \<not> path_exists fs ?bdir then mkdir fs ?bdir else Some fs) = Some fs1"
    using assms(1,2)
    by (cases "if \<not> path_exists fs ?bdir then mkdir fs ?bdir else Some fs")
      (auto simp: create_backup_def Let_def)
  then have src: "fs1 (root @ rel) = fs (root @ rel)"
    using target_not_backup(3) [OF assms(3), of root]
    by (auto simp: mkdir_def split: if_splits)
  have "backup_loop root ?bdir files_to_backup fs1 = (Returned (), fs')"
    using assms(1,2) fs1
    by (auto simp: create_backup_def Let_def split: prod.splits result.splits)
  from backup_loop_copies [OF this assms(3) _ files_to_backup_shape] src assms(4)
  show ?thesis by simp
qed

lemma patch_pass_keeps:
  assumes "patch_loop [patch_mavlink_header, patch_udp_binding, patch_userapi_connection]
             n self fs = (r, self', fs')"
    and "pyhula_path self = Some root"
    and "fs q = None \<or>
         q \<notin> {root @ mavlink_file, root @ taskcontroller_file, root @ userapi_file}"
  shows "fs' q = fs q"
proof -
  let ?I = "\<lambda>s f. pyhula_path s = Some root \<and> f q = fs q"
  have step: "?I s' f'"
    if run: "patch_file rel rewrite name s f0 = (rr, s', f')" and I: "?I s f0"
      and rel: "root @ rel \<in> {root @ mavlink_file, root @ taskcontroller_file, root @ userapi_file}"
    for rel rewrite name s f0 rr s' f'
  proof (cases "q = root @ rel")
    case True
    with rel assms(3) I have "f0 (root @ rel) = None" by auto
    with run I show ?thesis
      using patch_file_missing [of s root f0 rel rewrite name] by auto
  next
    case False
    with run I show ?thesis
      using patch_file_other [of rel rewrite name s f0 rr s' f' root q]
        patch_file_path [of rel rewrite name s f0 rr s' f' root] by simp
  qed
  have "?I self' fs'"
  proof (rule patch_loop_invariant [where I = ?I, OF _ _ assms(1)])
    show "?I self fs" using assms(2) by simp
  next
    fix f s f0 rr s' f'
    assume f: "f \<in> set [patch_mavlink_header, patch_udp_binding, patch_userapi_connection]"
      and I: "?I s f0" and run: "f s f0 = (rr, s', f')"
    from f consider "f = patch_mavlink_header" | "f = patch_udp_binding"
      | "f = patch_userapi_connection" by auto
    then show "?I s' f'"
    proof cases
      case 1
      with run show ?thesis
        using step [of mavlink_file patch_mavlink_text _ s f0 rr s' f'] I
        by (simp add: patch_mavlink_header_def)
    next
      case 2
      with run show ?thesis
        using step [of taskcontroller_file patch_udp_text _ s f0 rr s' f'] I
        by (simp add: patch_udp_binding_def)
    next
      case 3
      with run show ?thesis
        using step [of userapi_file patch_userapi_text _ s f0 rr s' f'] I
        by (simp add: patch_userapi_connection_def)
    qed
  qed
  then show ?thesis by simp
qed

lemma backup_path_no_target:
  "root @ [''original_backup''] @ x \<notin>
     {root @ mavlink_file, root @ taskcontroller_file, root @ userapi_file}"
  by (simp add: mavlink_file_def taskcontroller_file_def userapi_file_def)

text \<open>
  C8. A run of \<^verbatim>\<open>apply_all_patches\<close> that does not find the installation changes
  nothing. In a run that finds it, the backup step comes first and does not change a
  target file; when it does not return \<^verbatim>\<open>True\<close> (it raises), the run ends with the
  file system the backup step left, so no target is changed. A target whose content after
  the run differs from its content before existed before, the backup step returned
  \<^verbatim>\<open>True\<close>, and the text the target had before the run is in the backup tree, at the
  mirrored path (or inside it, where the mirrored path was a directory), both right after
  the backup step, before any patch method runs, and at the end of the run.
\<close>

theorem backup_before_mutation:
  "apply_all_patches None self fs = (Returned False, self, fs) \<and>
   (apply_all_patches (Some root) self fs = (r, self', fs') \<and> rel \<in> set files_to_backup \<longrightarrow>
    (\<exists>rb self2 fs2.
       create_backup (self\<lparr>pyhula_path := Some root\<rparr>) fs = (rb, self2, fs2) \<and>
       fs2 (root @ rel) = fs (root @ rel) \<and>
       (rb \<noteq> Returned True \<longrightarrow> fs' = fs2) \<and>
       (fs' (root @ rel) \<noteq> fs (root @ rel) \<longrightarrow> rb = Returned True \<and> fs (root @ rel) \<noteq> None) \<and>
       (rb = Returned True \<and> fs (root @ rel) \<noteq> None \<longrightarrow>
          (\<exists>t d. fs (root @ rel) = Some (File t) \<and>
             (d = root @ [''original_backup''] @ rel \<or>
              d = root @ [''original_backup''] @ rel @ [last rel]) \<and>
             fs2 d = Some (File t) \<and> fs' d = Some (File t)))))"
proof (intro conjI impI)
  show "apply_all_patches None self fs = (Returned False, self, fs)"
    by (simp add: apply_all_patches_def find_pyhula_installation_def)
next
  let ?s0 = "self\<lparr>pyhula_path := Some root\<rparr>"
  assume "apply_all_patches (Some root) self fs = (r, self', fs') \<and> rel \<in> set files_to_backup"
  then have run: "apply_all_patches (Some root) self fs = (r, self', fs')"
    and rel: "rel \<in> set files_to_backup" by simp_all
  obtain rb self2 fs2 where b: "create_backup ?s0 fs = (rb, self2, fs2)"
    by (cases "create_backup ?s0 fs")
  have p0: "pyhula_path ?s0 = Some root" by simp
  have same: "fs2 (root @ rel) = fs (root @ rel)" and p2: "pyhula_path self2 = Some root"
    using create_backup_frame [OF b rel p0] by simp_all
  have failed: "fs' = fs2" if "rb \<noteq> Returned True"
    using that run b
    by (cases rb) (auto simp: apply_all_patches_def find_pyhula_installation_def)
  obtain r3 self3 fs3 where
    l: "patch_loop [patch_mavlink_header, patch_udp_binding, patch_userapi_connection]
          0 self2 fs2 = (r3, self3, fs3)"
    using prod_cases3 by blast
  have through: "fs' = fs3" if "rb = Returned True"
    using that run b l
    by (cases r3) (auto simp: apply_all_patches_def find_pyhula_installation_def)
  have target: "root @ rel \<in> {root @ mavlink_file, root @ taskcontroller_file, root @ userapi_file}"
    using rel by (auto simp: files_to_backup_def mavlink_file_def taskcontroller_file_def
        userapi_file_def)
  have unchanged: "fs' (root @ rel) = fs (root @ rel)"
    if "rb \<noteq> Returned True \<or> fs (root @ rel) = None"
  proof (cases "rb = Returned True")
    case False
    with failed same show ?thesis by simp
  next
    case True
    with that same have "fs2 (root @ rel) = None" by simp
    from patch_pass_keeps [OF l p2, of "root @ rel"] this through [OF True] same
    show ?thesis by simp
  qed
  have copies: "\<exists>t d. fs (root @ rel) = Some (File t) \<and>
        (d = root @ [''original_backup''] @ rel \<or>
         d = root @ [''original_backup''] @ rel @ [last rel]) \<and>
        fs2 d = Some (File t) \<and> fs' d = Some (File t)"
    if "rb = Returned True \<and> fs (root @ rel) \<noteq> None"
  proof -
    from that b have "create_backup ?s0 fs = (Returned True, self2, fs2)" by simp
    from create_backup_copies [OF this p0 rel] that
    obtain t d where t: "fs (root @ rel) = Some (File t)"
      and d: "d = root @ [''original_backup''] @ rel \<or>
              d = root @ [''original_backup''] @ rel @ [last rel]"
      and fd: "fs2 d = Some (File t)" by blast
    from d have "d \<notin> {root @ mavlink_file, root @ taskcontroller_file, root @ userapi_file}"
      using backup_path_no_target [of root rel] backup_path_no_target [of root "rel @ [last rel]"]
      by auto
    from patch_pass_keeps [OF l p2, of d] this have "fs3 d = fs2 d" by simp
    with fd through that t d show ?thesis by auto
  qed
  show "\<exists>rb self2 fs2.
       create_backup (self\<lparr>pyhula_path := Some root\<rparr>) fs = (rb, self2, fs2) \<and>
       fs2 (root @ rel) = fs (root @ rel) \<and>
       (rb \<noteq> Returned True \<longrightarrow> fs' = fs2) \<and>
       (fs' (root @ rel) \<noteq> fs (root @ rel) \<longrightarrow> rb = Returned True \<and> fs (root @ rel) \<noteq> None) \<and>
       (rb = Returned True \<and> fs (root @ rel) \<noteq> None \<longrightarrow>
          (\<exists>t d. fs (root @ rel) = Some (File t) \<and>
             (d = root @ [''original_backup''] @ rel \<or>
              d = root @ [''original_backup''] @ rel @ [last rel]) \<and>
             fs2 d = Some (File t) \<and> fs' d = Some (File t)))"
    using b same failed unchanged copies by blast
qed

theorem backup_before_mutation_witness:
  "mavlink_file \<in> set files_to_backup \<and>
   (\<exists>d. (d = fixture_root @ [''original_backup''] @ mavlink_file \<or>
         d = fixture_root @ [''original_backup''] @ mavlink_file @ [last mavlink_file]) \<and>
        snd (snd (apply_all_patches (Some fixture_root) fixture_patcher fixture_fs)) d =
          Some (File fixture_mavlink))"
proof -
  let ?run = "apply_all_patches (Some fixture_root) fixture_patcher fixture_fs"
  have s0: "fixture_patcher\<lparr>pyhula_path := Some fixture_root\<rparr> = fixture_patcher"
    by (simp add: fixture_patcher_def)
  have run: "?run = (fst ?run, fst (snd ?run), snd (snd ?run)) \<and>
      mavlink_file \<in> set files_to_backup"
    using target_files(1) by simp
  from backup_before_mutation [of fixture_patcher fixture_fs fixture_root "fst ?run"
      "fst (snd ?run)" "snd (snd ?run)" mavlink_file, THEN conjunct2, rule_format, OF run]
  show ?thesis
    unfolding s0 using fixture_backup(1) fixture_fs_files(1) target_files(1) by auto
qed

section \<open>The pack patch from end to end\<close>

lemma join_nl_append:
  "xs \<noteq> [] \<Longrightarrow> ys \<noteq> [] \<Longrightarrow> join_nl (xs @ ys) = join_nl xs @ nl # join_nl ys"
proof (induction xs rule: join_nl.induct)
  case 1
  then show ?case by simp
next
  case (2 l)
  then show ?case by (simp add: join_nl_Cons)
next
  case (3 l m ls)
  then show ?case by simp
qed

lemma join_nl_snoc_append:
  "join_nl (ls @ [a @ b]) = join_nl (ls @ [a]) @ b"
  by (cases "ls = []") (simp_all add: join_nl_append)

lemma join_nl_sublist:
  "mid \<noteq> [] \<Longrightarrow> sublist (join_nl mid) (join_nl (pre @ mid @ post))"
proof (induction pre)
  case Nil
  then show ?case
    by (cases "post = []") (simp_all add: join_nl_append)
next
  case (Cons p pre)
  then have "sublist (join_nl mid) ((p @ [nl]) @ join_nl (pre @ mid @ post) @ [])"
    by (intro sublist_extend) simp
  then show ?case
    using Cons.prems by (simp add: join_nl_Cons)
qed

lemma pack_head_facts:
  "original_pack_pattern = join_nl (pack_head @ [str ''        ''])"
  "take 4 (split_nl fixed_pack_code) = pack_head"
  "\<forall>l\<in>set pack_head. nl \<notin> set l"
  "\<forall>l\<in>set (tl pack_head). \<not> sublist pack_signature l \<and> \<not> block_terminator 4 l"
  "sublist pack_signature (hd pack_head)" "indent_width (hd pack_head) = 4"
  "pack_head = hd pack_head # tl pack_head"
proof -
  show "original_pack_pattern = join_nl (pack_head @ [str ''        ''])"
    by (simp add: original_pack_pattern_def pack_head_def)
  show "take 4 (split_nl fixed_pack_code) = pack_head"
    unfolding fixed_pack_code_def pack_head_def
    by (subst split_join) (simp_all add: str_def nl_def)
  show "\<forall>l\<in>set pack_head. nl \<notin> set l"
    by (simp add: pack_head_def str_def nl_def)
  show "\<forall>l\<in>set (tl pack_head). \<not> sublist pack_signature l \<and> \<not> block_terminator 4 l"
    by (simp add: pack_head_def py_eval)
  show "sublist pack_signature (hd pack_head)" "indent_width (hd pack_head) = 4"
    by (simp_all add: pack_head_def py_eval)
  show "pack_head = hd pack_head # tl pack_head"
    by (simp add: pack_head_def)
qed

lemma pack_pattern_found:
  assumes "prefix (str ''        '') b"
  shows "sublist original_pack_pattern (join_nl (pre @ pack_head @ b # rest))"
proof -
  from assms obtain x where b: "b = str ''        '' @ x"
    by (auto simp: prefix_def)
  have "prefix original_pack_pattern (join_nl (pack_head @ [b]))"
    unfolding pack_head_facts(1) b join_nl_snoc_append by simp
  then have "sublist original_pack_pattern (join_nl (pack_head @ [b]))"
    by (rule prefix_imp_sublist)
  moreover have "sublist (join_nl (pack_head @ [b])) (join_nl (pre @ (pack_head @ [b]) @ rest))"
    by (rule join_nl_sublist) simp
  ultimately show ?thesis
    using sublist_order.order.trans by fastforce
qed

lemma pack_scan_method:
  assumes "\<forall>l\<in>set (pre @ body @ rest). \<not> sublist pack_signature l"
    and "\<forall>l\<in>set body. \<not> block_terminator 4 l"
    and "rest = [] \<or> block_terminator 4 (hd rest)"
  shows "pack_loop (pre @ pack_head @ body @ rest) False 0 [] =
     pre @ split_nl fixed_pack_code @ rest"
proof -
  let ?F = "split_nl fixed_pack_code"
  have pre: "\<forall>l\<in>set pre. \<not> sublist pack_signature l"
    and inner: "\<forall>l\<in>set (tl pack_head @ body). \<not> sublist pack_signature l \<and> \<not> block_terminator 4 l"
    and rest: "\<forall>l\<in>set rest. \<not> sublist pack_signature l"
    using assms(1,2) pack_head_facts(4) by auto
  have "pack_loop (pre @ pack_head @ body @ rest) False 0 [] =
      pack_loop (hd pack_head # (tl pack_head @ body) @ rest) False 0 pre"
    using pack_loop_outside [OF pre, of "pack_head @ body @ rest" 0 "[]"] pack_head_facts(7)
    by (metis append_Cons append_Nil append_assoc)
  also have "\<dots> = pack_loop rest True 4 (pre @ ?F)"
    using pack_loop_inside [OF inner, of rest "pre @ ?F"] pack_head_facts(5,6) by simp
  also have "\<dots> = pre @ ?F @ rest"
  proof (cases rest)
    case Nil
    then show ?thesis by simp
  next
    case (Cons t rest')
    with assms(3) rest have "block_terminator 4 t" "\<not> sublist pack_signature t"
      "\<forall>l\<in>set rest'. \<not> sublist pack_signature l" by simp_all
    then show ?thesis
      using Cons pack_loop_outside [of rest' "[]" 4 "pre @ ?F @ [t]"]
      by (simp add: block_terminator_def docstring_line_def)
  qed
  finally show ?thesis .
qed

lemma pack_marker_once:
  "sum_list (map (occurrences pack_marker) (split_nl fixed_pack_code)) = 1"
  unfolding fixed_pack_code_def
  by (subst split_join) (simp_all add: str_def nl_def pack_marker_def)

lemma occurrences_absent:
  "\<not> sublist p (join_nl ls) \<Longrightarrow> sum_list (map (occurrences p) ls) = 0"
  using sublist_line_join [of _ ls p] by (auto simp: occurrences_zero_iff)

lemma pack_patch_text:
  assumes "content = join_nl (pre @ pack_head @ [b5, b6] @ rest)"
    and "\<forall>l\<in>set (pre @ [b5, b6] @ rest). nl \<notin> set l \<and> \<not> sublist pack_signature l"
    and "prefix (str ''        '') b5"
    and "\<not> block_terminator 4 b5 \<and> \<not> block_terminator 4 b6"
    and "rest = [] \<or> block_terminator 4 (hd rest)"
    and "\<not> sublist pack_marker content"
  shows "patch_mavlink_text content =
     (APPLIED, Some (join_nl (pre @ split_nl fixed_pack_code @ rest)))"
proof -
  have "split_nl content = pre @ pack_head @ [b5, b6] @ rest"
    unfolding assms(1) using assms(2) pack_head_facts(3) by (intro split_join) auto
  moreover have "pack_loop (pre @ pack_head @ [b5, b6] @ rest) False 0 [] =
      pre @ split_nl fixed_pack_code @ rest"
    using assms(2,4,5) by (intro pack_scan_method) auto
  moreover have "sublist original_pack_pattern content"
    unfolding assms(1) using pack_pattern_found [OF assms(3), of pre "b6 # rest"] by simp
  ultimately show ?thesis
    using assms(6) by (simp add: patch_mavlink_text_def)
qed

lemma fixture_mavlink_lines:
  \<open>fixture_mavlink = join_nl
     ([str ''class MAVLink_header(object):''] @ pack_head @
      [str ''        hdr = (self.mlen, self.seq, self.srcSystem, self.srcComponent, self.msgId)'',
       str ''        return struct.pack("<BBBBBB", 254, *hdr)''] @
      [str ''    def unpack(self):'', str ''        pass''])\<close>
  by (simp add: fixture_mavlink_def pack_head_def)

lemma fixture_mavlink_patched:
  \<open>patch_mavlink_text fixture_mavlink =
     (APPLIED, Some (join_nl ([str ''class MAVLink_header(object):''] @
        split_nl fixed_pack_code @ [str ''    def unpack(self):'', str ''        pass''])))\<close>
  by (rule pack_patch_text [OF fixture_mavlink_lines])
    (simp_all add: py_eval fixture_mavlink_text)

text \<open>
  C3, as stated, fails on its own scenario. The replacement begins with the same four
  lines as the method it replaces (the header and the docstring), so the header line of
  the original method, one of its six lines, is a line of the patched text as well.
\<close>

theorem pack_patch_keeps_head_lines:
  \<open>patch_mavlink_text fixture_mavlink =
     (APPLIED, Some (join_nl ([str ''class MAVLink_header(object):''] @
        split_nl fixed_pack_code @ [str ''    def unpack(self):'', str ''        pass'']))) \<and>
   str ''    def pack(self, force_mavlink1=False):'' \<in> set (split_nl fixture_mavlink) \<and>
   str ''    def pack(self, force_mavlink1=False):'' \<in>
     set (split_nl (join_nl ([str ''class MAVLink_header(object):''] @
        split_nl fixed_pack_code @ [str ''    def unpack(self):'', str ''        pass''])))\<close>
proof -
  let ?h = "str ''    def pack(self, force_mavlink1=False):''"
  let ?out = "[str ''class MAVLink_header(object):''] @
        split_nl fixed_pack_code @ [str ''    def unpack(self):'', str ''        pass'']"
  have "?h \<in> set (take 4 (split_nl fixed_pack_code))"
    unfolding pack_head_facts(2) by (simp add: pack_head_def)
  then have "?h \<in> set ?out"
    by (auto dest: in_set_takeD)
  moreover have "split_nl (join_nl ?out) = ?out"
    by (rule split_join) (auto simp: str_def nl_def dest: split_nl_lines)
  moreover have "?h \<in> set (split_nl fixture_mavlink)"
    unfolding fixture_mavlink_def by (subst split_join) (simp_all add: str_def nl_def)
  ultimately show ?thesis
    using fixture_mavlink_patched by simp
qed

text \<open>
  C3, amended. Let the lines of a file that does not hold the marker be: lines without
  the signature, then the four opening lines of \<^verbatim>\<open>pack\<close> at depth 4 (header and
  docstring), then two more lines of its body that do not hold the signature and are no
  terminators at depth 4, the first of them indented by eight spaces at least, then lines
  without the signature that are none or begin with a terminator at depth 4. Then
  the patch is applied, and the text it writes is the lines before, the replacement and
  the lines after: the six lines of the method are replaced by the replacement, which
  begins with the same four opening lines. The written text holds the marker exactly once,
  and the patch run on it returns through its already-applied exit.
\<close>

theorem pack_patch_end_to_end:
  assumes "content = join_nl (pre @ pack_head @ [b5, b6] @ rest)"
    and "\<forall>l\<in>set (pre @ [b5, b6] @ rest). nl \<notin> set l \<and> \<not> sublist pack_signature l"
    and "prefix (str ''        '') b5"
    and "\<not> block_terminator 4 b5 \<and> \<not> block_terminator 4 b6"
    and "rest = [] \<or> block_terminator 4 (hd rest)"
    and "\<not> sublist pack_marker content"
  shows "\<exists>out. patch_mavlink_text content = (APPLIED, Some out) \<and>
     out = join_nl (pre @ split_nl fixed_pack_code @ rest) \<and>
     take 4 (split_nl fixed_pack_code) = pack_head \<and>
     occurrences pack_marker out = 1 \<and>
     patch_mavlink_text out = (ALREADY_APPLIED, None)"
proof -
  let ?out = "join_nl (pre @ split_nl fixed_pack_code @ rest)"
  have marker: "nl \<notin> set pack_marker" "pack_marker \<noteq> []"
    by (simp_all add: pack_marker_def str_def nl_def)
  have "occurrences pack_marker l = 0" if "l \<in> set (pre @ rest)" for l
  proof -
    from that have "l \<in> set (pre @ pack_head @ [b5, b6] @ rest)" by auto
    then have "sublist l content"
      unfolding assms(1) by (rule sublist_join)
    with assms(6) have "\<not> sublist pack_marker l"
      using sublist_order.order.trans by blast
    then show ?thesis by (simp add: occurrences_zero_iff)
  qed
  then have "sum_list (map (occurrences pack_marker) pre) = 0"
    and "sum_list (map (occurrences pack_marker) rest) = 0"
    by simp_all
  then have once: "occurrences pack_marker ?out = 1"
    using pack_marker_once by (simp add: occurrences_join [OF marker])
  then have "sublist pack_marker ?out"
    using occurrences_zero_iff [of pack_marker ?out] by simp
  then have "patch_mavlink_text ?out = (ALREADY_APPLIED, None)"
    by (rule marked_texts(1))
  with once pack_patch_text [OF assms] pack_head_facts(2) show ?thesis
    by simp
qed

theorem pack_patch_end_to_end_witness:
  \<open>patch_mavlink_text fixture_mavlink =
     (APPLIED, Some (join_nl ([str ''class MAVLink_header(object):''] @
        split_nl fixed_pack_code @ [str ''    def unpack(self):'', str ''        pass'']))) \<and>
   occurrences pack_marker (join_nl ([str ''class MAVLink_header(object):''] @
        split_nl fixed_pack_code @ [str ''    def unpack(self):'', str ''        pass''])) = 1 \<and>
   patch_mavlink_text (join_nl ([str ''class MAVLink_header(object):''] @
        split_nl fixed_pack_code @ [str ''    def unpack(self):'', str ''        pass''])) =
     (ALREADY_APPLIED, None)\<close>
proof -
  have "\<exists>out. patch_mavlink_text fixture_mavlink = (APPLIED, Some out) \<and>
     out = join_nl ([str ''class MAVLink_header(object):''] @ split_nl fixed_pack_code @
       [str ''    def unpack(self):'', str ''        pass'']) \<and>
     take 4 (split_nl fixed_pack_code) = pack_head \<and>
     occurrences pack_marker out = 1 \<and>
     patch_mavlink_text out = (ALREADY_APPLIED, None)"
    by (rule pack_patch_end_to_end [OF fixture_mavlink_lines])
      (simp_all add: py_eval fixture_mavlink_text)
  then show ?thesis by simp
qed

section \<open>The boundary at a sibling method\<close>

lemma marker_not_in_lines:
  "\<forall>l\<in>set ls. \<not> sublist pack_marker l \<Longrightarrow> \<not> sublist pack_marker (join_nl ls)"
  using sublist_join_line [of pack_marker ls] nl_free_literals(2)
  by (auto simp: pack_marker_def str_def)

text \<open>
  C4, as stated, fails when a line of the first method is itself shallow. The file below
  opens the method \<^verbatim>\<open>pack\<close> at depth 4 with the header and docstring that
  \<^verbatim>\<open>patch_mavlink_header\<close> looks for, so the patch is applied to it. The body holds a
  triple-quoted string whose second line, \<^verbatim>\<open>b"""\<close>, starts at column 0: the line is
  non-blank, is not indented deeper than the header and its stripped text does not start
  with three double quotes, so the block ends there. That line and the \<^verbatim>\<open>return\<close>
  after it, both lines of the first method, are in the text that is written back.
\<close>

theorem pack_patch_stops_inside_method:
  \<open>patch_mavlink_text (join_nl
     [str ''    def pack(self, force_mavlink1=False):'',
      str ''        """'',
      str ''        pack the MAVLink header into a byte string'',
      str ''        """'',
      str ''        s = """a'',
      str ''b"""'',
      str ''        return s'',
      str ''    def other(self):'',
      str ''        pass''])
   = (APPLIED, Some (join_nl (split_nl fixed_pack_code @
     [str ''b"""'',
      str ''        return s'',
      str ''    def other(self):'',
      str ''        pass''])))\<close>
proof -
  let ?body = \<open>[str ''        s = """a'']\<close>
  let ?rest = \<open>[str ''b"""'', str ''        return s'', str ''    def other(self):'',
      str ''        pass'']\<close>
  let ?lines = "pack_head @ ?body @ ?rest"
  have lines: "\<forall>l\<in>set ?lines. nl \<notin> set l"
    by (simp add: pack_head_def str_def nl_def)
  have "split_nl (join_nl ?lines) = ?lines"
    using lines by (intro split_join) simp
  moreover have "pack_loop ([] @ pack_head @ ?body @ ?rest) False 0 [] =
      [] @ split_nl fixed_pack_code @ ?rest"
    by (rule pack_scan_method) (simp_all add: py_eval)
  moreover have "sublist original_pack_pattern (join_nl ([] @ pack_head @ hd ?body # ?rest))"
    by (rule pack_pattern_found) (simp add: str_def)
  moreover have "\<not> sublist pack_marker (join_nl ?lines)"
    by (rule marker_not_in_lines) (simp add: pack_head_def py_eval pack_marker_def)
  ultimately have "patch_mavlink_text (join_nl ?lines) =
      (APPLIED, Some (join_nl (split_nl fixed_pack_code @ ?rest)))"
    by (simp add: patch_mavlink_text_def)
  then show ?thesis
    by (simp add: pack_head_def)
qed

text \<open>
  C4, amended. Let a method open at a line of indentation width 4 that contains the
  signature, let every line of it after the header not contain the signature and be blank,
  indented deeper than 4 or a docstring line, and let it be followed at once by the header
  of a sibling, a line of indentation width 4 whose stripped text starts with
  \<^verbatim>\<open>def \<close> and which does not contain the signature. Then the scan replaces exactly
  the header and the lines of the first method: the output is what the scan made of the
  lines before, then the replacement, then the sibling's header, then what the scan makes of
  the lines after it, started outside any block. Lines among which none contains the
  signature are copied unchanged, so with the signature nowhere else in the file the output
  is the lines before, the replacement, the sibling's header and the lines after it. If
  moreover these are the lines of the file (none of them holds a newline) and its text does
  not hold the marker and holds the opening pattern that \<^verbatim>\<open>patch_mavlink_header\<close>
  looks for, the patch is applied and writes exactly these output lines.
\<close>

theorem sibling_method_boundary:
  assumes "sublist pack_signature header" and "indent_width header = 4"
    and "\<forall>l\<in>set body. \<not> sublist pack_signature l \<and>
           (strip l = [] \<or> 4 < indent_width l \<or> docstring_line l)"
    and "indent_width sibling = 4" and "prefix (str ''def '') (strip sibling)"
    and "\<not> sublist pack_signature sibling"
  shows
    "pack_loop (pre @ header # body @ sibling # rest) b i acc =
       pack_loop pre b i acc @ split_nl fixed_pack_code @ sibling # pack_loop rest False 4 [] \<and>
     ((\<forall>l\<in>set rest. \<not> sublist pack_signature l) \<longrightarrow> pack_loop rest False 4 [] = rest) \<and>
     ((\<forall>l\<in>set pre. \<not> sublist pack_signature l) \<and> (\<forall>l\<in>set rest. \<not> sublist pack_signature l) \<longrightarrow>
        pack_loop (pre @ header # body @ sibling # rest) False 0 [] =
        pre @ split_nl fixed_pack_code @ sibling # rest) \<and>
     ((\<forall>l\<in>set pre. \<not> sublist pack_signature l) \<and> (\<forall>l\<in>set rest. \<not> sublist pack_signature l) \<and>
      (\<forall>l\<in>set (pre @ header # body @ sibling # rest). nl \<notin> set l) \<and>
      \<not> sublist pack_marker (join_nl (pre @ header # body @ sibling # rest)) \<and>
      sublist original_pack_pattern (join_nl (pre @ header # body @ sibling # rest)) \<longrightarrow>
        patch_mavlink_text (join_nl (pre @ header # body @ sibling # rest)) =
        (APPLIED, Some (join_nl (pre @ split_nl fixed_pack_code @ sibling # rest))))"
proof -
  have body: "\<forall>l\<in>set body. \<not> sublist pack_signature l \<and> \<not> block_terminator 4 l"
    using assms(3) by (auto simp: block_terminator_def)
  have "strip sibling \<noteq> [] \<and> \<not> prefix triple_quote (strip sibling)"
    using assms(5) by (rule def_prefix_not_docstring)
  then have sib: "pack_loop (sibling # rest) True 4 new_lines =
      new_lines @ sibling # pack_loop rest False 4 []" for new_lines
    using assms(4,6) pack_loop_acc [of rest False 4 "new_lines @ [sibling]"] by simp
  have outside: "pack_loop ls False d [] = ls" if "\<forall>l\<in>set ls. \<not> sublist pack_signature l" for ls d
    using pack_loop_outside [OF that, of "[]" d "[]"] by simp
  have main: "pack_loop (pre @ header # body @ sibling # rest) b' i' acc' =
      pack_loop pre b' i' acc' @ split_nl fixed_pack_code @ sibling # pack_loop rest False 4 []"
    for b' i' acc'
    using pack_loop_restart [OF assms(1), of pre "body @ sibling # rest" b' i' acc']
      pack_loop_inside [OF body, of "sibling # rest"] sib
    by (simp add: assms(2))
  have scan: "pack_loop (pre @ header # body @ sibling # rest) False 0 [] =
        pre @ split_nl fixed_pack_code @ sibling # rest"
    if "(\<forall>l\<in>set pre. \<not> sublist pack_signature l) \<and> (\<forall>l\<in>set rest. \<not> sublist pack_signature l)"
    using that main [of False 0 "[]"] outside by simp
  have whole: "patch_mavlink_text (join_nl (pre @ header # body @ sibling # rest)) =
        (APPLIED, Some (join_nl (pre @ split_nl fixed_pack_code @ sibling # rest)))"
    if "(\<forall>l\<in>set pre. \<not> sublist pack_signature l) \<and> (\<forall>l\<in>set rest. \<not> sublist pack_signature l) \<and>
      (\<forall>l\<in>set (pre @ header # body @ sibling # rest). nl \<notin> set l) \<and>
      \<not> sublist pack_marker (join_nl (pre @ header # body @ sibling # rest)) \<and>
      sublist original_pack_pattern (join_nl (pre @ header # body @ sibling # rest))"
  proof -
    have "split_nl (join_nl (pre @ header # body @ sibling # rest)) =
        pre @ header # body @ sibling # rest"
      using that by (intro split_join) simp_all
    with that scan show ?thesis
      by (simp add: patch_mavlink_text_def)
  qed
  show ?thesis
    using main [of b i acc] scan whole outside by simp
qed

theorem sibling_method_boundary_witness:
  \<open>patch_mavlink_text (join_nl
     [str ''class H:'',
      str ''    def pack(self, force_mavlink1=False):'',
      str ''        """'',
      str ''        pack the MAVLink header into a byte string'',
      str ''        """'',
      str ''        a = 1'',
      [],
      str ''        return a'',
      str ''    def unpack(self):'',
      str ''        pass''])
   = (APPLIED, Some (join_nl ([str ''class H:''] @ split_nl fixed_pack_code @
       [str ''    def unpack(self):'', str ''        pass''])))\<close>
proof -
  let ?pre = "[str ''class H:'']"
  let ?body = "tl pack_head @ [str ''        a = 1'', [], str ''        return a'']"
  let ?sib = "str ''    def unpack(self):''"
  let ?rest = "[str ''        pass'']"
  let ?lines = "?pre @ hd pack_head # ?body @ ?sib # ?rest"
  have h1: "sublist pack_signature (hd pack_head)"
    and h2: "indent_width (hd pack_head) = 4"
    and h3: "\<forall>l\<in>set ?body. \<not> sublist pack_signature l \<and>
           (strip l = [] \<or> 4 < indent_width l \<or> docstring_line l)"
    and h4: "indent_width ?sib = 4"
    and h5: "prefix (str ''def '') (strip ?sib)"
    and h6: "\<not> sublist pack_signature ?sib"
    by (simp_all add: pack_head_def py_eval)
  have "sublist original_pack_pattern
      (join_nl (?pre @ pack_head @ str ''        a = 1'' # [[], str ''        return a'', ?sib] @ ?rest))"
    by (rule pack_pattern_found) (simp add: str_def)
  then have found: "sublist original_pack_pattern (join_nl ?lines)"
    by (simp add: pack_head_def)
  have clean: "\<not> sublist pack_marker (join_nl ?lines)"
    by (rule marker_not_in_lines) (simp add: pack_head_def py_eval pack_marker_def)
  have h7: "(\<forall>l\<in>set ?pre. \<not> sublist pack_signature l) \<and>
      (\<forall>l\<in>set ?rest. \<not> sublist pack_signature l) \<and>
      (\<forall>l\<in>set ?lines. nl \<notin> set l) \<and>
      \<not> sublist pack_marker (join_nl ?lines) \<and>
      sublist original_pack_pattern (join_nl ?lines)"
    using found clean by (simp add: pack_head_def py_eval)
  show ?thesis
    using sibling_method_boundary [OF h1 h2 h3 h4 h5 h6, of ?pre ?rest False 0 "[]",
        THEN conjunct2, THEN conjunct2, THEN conjunct2, rule_format, OF h7]
    by (simp add: pack_head_def)
qed

section \<open>Replacing every occurrence\<close>

lemma join_with_Cons: "ss \<noteq> [] \<Longrightarrow> join_with sep (s # ss) = s @ sep @ join_with sep ss"
  by (cases ss) simp_all

lemma sublist_join_with: "x \<in> set ss \<Longrightarrow> sublist x (join_with sep ss)"
proof (induction ss)
  case Nil
  then show ?case by simp
next
  case (Cons s ss)
  show ?case
  proof (cases "ss = []")
    case True
    with Cons.prems show ?thesis by simp
  next
    case False
    show ?thesis
    proof (cases "x = s")
      case True
      with False show ?thesis by (simp add: join_with_Cons)
    next
      case ne: False
      with Cons have "sublist x (join_with sep ss)" by simp
      then have "sublist x ((s @ sep) @ join_with sep ss @ [])"
        by (rule sublist_extend)
      with False show ?thesis by (simp add: join_with_Cons)
    qed
  qed
qed

lemma border_free_suffix:
  "border_free_from q t \<Longrightarrow> suffix v t \<Longrightarrow> v \<noteq> [] \<Longrightarrow> \<not> prefix v q"
proof (induction t)
  case Nil
  then show ?case by simp
next
  case (Cons c t)
  then show ?case by (auto simp: suffix_Cons)
qed

lemma unbordered_no_border:
  assumes "unbordered q" and "q = u @ v" and "u \<noteq> []" and "v \<noteq> []"
  shows "\<not> prefix v q"
proof -
  from assms(2,3) have "suffix v (tl q)"
    by (cases u) (auto simp: suffix_def)
  with assms(1,4) show ?thesis
    unfolding unbordered_def by (auto dest: border_free_suffix)
qed

lemma unbordered_overlap:
  assumes "unbordered q" and "prefix q (u @ w)" and "prefix w q \<or> prefix q w" and "u \<noteq> []"
  shows "prefix q u"
proof (cases "length q \<le> length u")
  case True
  with assms(2) show ?thesis by (rule prefix_short)
next
  case False
  with assms(2) obtain v where v: "q = u @ v" "v \<noteq> []" "prefix v w"
    by (metis append_eq_append_conv_if append_take_drop_id drop_eq_Nil2 prefix_def
        prefixI same_prefix_prefix)
  have "prefix v q"
  proof -
    from assms(3) show ?thesis
    proof
      assume "prefix w q"
      with v(3) show ?thesis by (rule prefix_order.trans)
    next
      assume "prefix q w"
      with v(3) have "prefix v q \<or> prefix q v"
        using prefix_same_cases by blast
      moreover have "length v < length q"
        using v(1) assms(4) by simp
      ultimately show ?thesis
        by (auto dest: prefix_length_le)
    qed
  qed
  with unbordered_no_border [OF assms(1) v(1) assms(4) v(2)] show ?thesis by simp
qed

lemma unbordered_free_segment:
  assumes "unbordered p" and "\<not> sublist p seg"
  shows "\<not> sublist p (seg @ butlast p)"
  using assms(2)
proof (induction seg)
  case Nil
  have "length (butlast p) < length p"
    using assms(1) by (simp add: unbordered_def)
  then show ?case
    by (auto dest: sublist_length_le)
next
  case (Cons c seg)
  have "\<not> prefix p (c # seg @ butlast p)"
  proof
    assume "prefix p (c # seg @ butlast p)"
    then have "prefix p ((c # seg) @ butlast p)" by simp
    from unbordered_overlap [OF assms(1) this] have "prefix p (c # seg)"
      by (simp add: prefixeq_butlast)
    with Cons.prems show False by (auto dest: prefix_imp_sublist)
  qed
  with Cons show ?case by (simp add: sublist_Cons_right)
qed

lemma occurrences_before:
  assumes "unbordered q" and "\<not> sublist q seg" and "prefix q w"
  shows "occurrences q (seg @ w) = occurrences q w"
  using assms(2)
proof (induction seg)
  case Nil
  then show ?case by simp
next
  case (Cons c seg)
  have "\<not> prefix q (c # seg @ w)"
  proof
    assume "prefix q (c # seg @ w)"
    then have "prefix q ((c # seg) @ w)" by simp
    from unbordered_overlap [OF assms(1) this] assms(3) have "prefix q (c # seg)" by simp
    with Cons.prems show False by (auto dest: prefix_imp_sublist)
  qed
  with Cons show ?case by (simp add: sublist_Cons_right)
qed

lemma occurrences_inside:
  "border_free_from q t \<Longrightarrow> length t < length q \<Longrightarrow>
   occurrences q (t @ x) = occurrences q x"
proof (induction t)
  case Nil
  then show ?case by simp
next
  case (Cons a t)
  have "\<not> prefix q (a # t @ x)"
  proof
    assume "prefix q (a # t @ x)"
    then have "prefix q ((a # t) @ x)" by simp
    moreover have "prefix (a # t) ((a # t) @ x)" by simp
    ultimately have "prefix q (a # t) \<or> prefix (a # t) q"
      using prefix_same_cases by blast
    with Cons.prems show False
      by (auto dest: prefix_length_le)
  qed
  with Cons show ?case by simp
qed

lemma occurrences_self:
  assumes "unbordered q"
  shows "occurrences q (q @ x) = 1 + occurrences q x"
proof -
  from assms obtain c t where q: "q = c # t" and t: "border_free_from q t"
    by (cases q) (auto simp: unbordered_def)
  have "occurrences q (t @ x) = occurrences q x"
    using t q by (intro occurrences_inside) simp_all
  moreover have "prefix q (c # t @ x)"
    unfolding q by simp
  moreover have "occurrences q (q @ x) = occurrences q (c # t @ x)"
    using q by simp
  ultimately show ?thesis
    by simp
qed

lemma occurrences_join_with:
  assumes "unbordered q" and "prefix q R"
    and "\<And>x. occurrences q (R @ x) = 1 + occurrences q x"
  shows "ss \<noteq> [] \<Longrightarrow> \<forall>x\<in>set ss. \<not> sublist q x \<Longrightarrow>
    occurrences q (join_with R ss) = length ss - 1"
proof (induction ss)
  case Nil
  then show ?case by simp
next
  case (Cons s ss)
  show ?case
  proof (cases "ss = []")
    case True
    with Cons.prems show ?thesis by (simp add: occurrences_zero_iff)
  next
    case False
    have "prefix q (R @ join_with R ss)"
      using assms(2) by (simp add: prefix_prefix)
    from occurrences_before [OF assms(1) _ this, of s] Cons False assms(3) show ?thesis
      by (simp add: join_with_Cons)
  qed
qed

lemma replace_join_with:
  assumes "unbordered p"
  shows "ss \<noteq> [] \<Longrightarrow> \<forall>x\<in>set ss. \<not> sublist p x \<Longrightarrow>
    replace p new (join_with p ss) = join_with new ss"
proof (induction ss)
  case Nil
  then show ?case by simp
next
  case (Cons s ss)
  have p: "p \<noteq> []" using assms by (simp add: unbordered_def)
  show ?case
  proof (cases "ss = []")
    case True
    with Cons.prems p show ?thesis by (simp add: replace_absent)
  next
    case False
    have "\<not> sublist p (s @ butlast p)"
      using unbordered_free_segment [OF assms] Cons.prems by simp
    with Cons False p show ?thesis
      using replace_segment [of p s new "join_with p ss"]
      by (simp add: join_with_Cons)
  qed
qed

lemma leftmost_occurrence:
  "sublist p body \<Longrightarrow> p \<noteq> [] \<Longrightarrow> \<exists>a b. body = a @ p @ b \<and> \<not> sublist p a"
proof (induction body)
  case Nil
  then show ?case by simp
next
  case (Cons c body)
  show ?case
  proof (cases "prefix p (c # body)")
    case True
    then obtain b where "c # body = [] @ p @ b"
      by (auto simp: prefix_def)
    moreover have "\<not> sublist p []" using Cons.prems(2) by simp
    ultimately show ?thesis by blast
  next
    case False
    with Cons obtain a b where ab: "body = a @ p @ b" "\<not> sublist p a"
      by (auto simp: sublist_Cons_right)
    have "\<not> prefix p (c # a)"
    proof
      assume "prefix p (c # a)"
      then have "prefix p ((c # a) @ p @ b)" by (rule prefix_prefix)
      with False ab(1) show False by simp
    qed
    with ab have "c # body = (c # a) @ p @ b \<and> \<not> sublist p (c # a)"
      by (simp add: sublist_Cons_right)
    then show ?thesis by blast
  qed
qed

lemma segments_exist:
  assumes "p \<noteq> []"
  shows "\<exists>ss. ss \<noteq> [] \<and> body = join_with p ss \<and> (\<forall>x\<in>set ss. \<not> sublist p x) \<and>
     (sublist p body \<longrightarrow> 2 \<le> length ss)"
proof (induction body rule: length_induct)
  case (1 body)
  show ?case
  proof (cases "sublist p body")
    case False
    then have "[body] \<noteq> [] \<and> body = join_with p [body] \<and> (\<forall>x\<in>set [body]. \<not> sublist p x) \<and>
        (sublist p body \<longrightarrow> 2 \<le> length [body])" by simp
    then show ?thesis by blast
  next
    case True
    from leftmost_occurrence [OF True assms] obtain a b where
      ab: "body = a @ p @ b" "\<not> sublist p a" by blast
    then have "length b < length body" using assms by simp
    with 1 obtain ss where ss: "ss \<noteq> []" "b = join_with p ss" "\<forall>x\<in>set ss. \<not> sublist p x"
      by blast
    then have "a # ss \<noteq> [] \<and> body = join_with p (a # ss) \<and>
        (\<forall>x\<in>set (a # ss). \<not> sublist p x) \<and> (sublist p body \<longrightarrow> 2 \<le> length (a # ss))"
      using ab by (cases ss) (simp_all add: join_with_Cons)
    then show ?thesis by blast
  qed
qed

lemma udp_patterns_unbordered: "\<forall>pattern\<in>set udp_bind_patterns. unbordered pattern"
  by (simp add: udp_bind_patterns_def unbordered_def str_def)

lemma udp_marker_unbordered: "unbordered udp_marker"
  by (simp add: udp_marker_def unbordered_def str_def)

lemma occurrences_no_head:
  "c \<notin> set l \<Longrightarrow> occurrences (c # q) (l @ x) = occurrences (c # q) x"
  by (induction l) auto

lemma udp_patterns_no_hash: "\<forall>pattern\<in>set udp_bind_patterns. 35 \<notin> set pattern"
  by (simp add: udp_bind_patterns_def str_def)

lemma occurrences_join_append:
  assumes "ls \<noteq> []" and "nl \<notin> set p" and "p \<noteq> []"
  shows "occurrences p (join_nl ls @ x) =
     sum_list (map (occurrences p) (butlast ls)) + occurrences p (last ls @ x)"
proof -
  have "join_nl ls @ x = join_nl (butlast ls @ [last ls @ x])"
    using join_nl_snoc_append [of "butlast ls" "last ls" x] assms(1) by simp
  then show ?thesis
    by (simp add: occurrences_join [OF assms(2,3)])
qed

lemma robust_bind_marker:
  assumes "pattern \<in> set udp_bind_patterns"
  shows "occurrences udp_marker (robust_bind pattern @ x) = 1 + occurrences udp_marker x"
proof -
  have "35 \<notin> set pattern"
    using assms udp_patterns_no_hash by simp
  then have "occurrences (35 # tl udp_marker) (pattern @ []) = occurrences (35 # tl udp_marker) []"
    by (rule occurrences_no_head)
  then have "occurrences udp_marker pattern = 0"
    by (simp add: udp_marker_def str_def)
  then show ?thesis
    unfolding robust_bind_def
    by (subst occurrences_join_append) (simp_all add: udp_marker_def str_def nl_def)
qed

lemma robust_bind_marker_once:
  "pattern \<in> set udp_bind_patterns \<Longrightarrow> occurrences udp_marker (robust_bind pattern) = 1"
  using robust_bind_marker [of pattern "[]"] udp_marker_unbordered
  by (simp add: unbordered_def)

lemma udp_loop_first:
  "i < length patterns \<Longrightarrow> sublist (patterns ! i) content \<Longrightarrow>
   \<forall>j<i. \<not> sublist (patterns ! j) content \<Longrightarrow>
   udp_loop patterns content =
     Some (replace (patterns ! i) (robust_bind (patterns ! i)) content)"
proof (induction patterns arbitrary: i)
  case Nil
  then show ?case by simp
next
  case (Cons p patterns)
  show ?case
  proof (cases i)
    case 0
    with Cons.prems show ?thesis by simp
  next
    case (Suc k)
    with Cons.prems have "\<not> sublist p content" by auto
    moreover have "udp_loop patterns content =
        Some (replace (patterns ! k) (robust_bind (patterns ! k)) content)"
      using Cons.prems Suc by (intro Cons.IH) auto
    ultimately show ?thesis
      using Suc by simp
  qed
qed

text \<open>
  C10. Let a text without the marker be cut at the occurrences of one of the four bind
  variants, none of the variants before it in the list occurring in the text: the text is
  the pieces \<open>ss\<close> with the variant between them, and no piece holds the variant. Then the
  patch is applied and writes the same pieces with the retry block for that variant between
  them: each of the \<open>length ss - 1\<close> occurrences of the variant, which are all its
  occurrences, is replaced by one block, and the pieces, with whatever variants from later
  in the list they hold, stay as they are. The block holds the marker once, and the written
  text holds it once for each replaced occurrence. Every text can be cut in this way.
\<close>

theorem udp_patch_first_variant:
  assumes "i < length udp_bind_patterns" and "pattern = udp_bind_patterns ! i"
    and "\<forall>j<i. \<not> sublist (udp_bind_patterns ! j) content"
    and "\<not> sublist udp_marker content"
    and "content = join_with pattern ss" and "2 \<le> length ss"
    and "\<forall>x\<in>set ss. \<not> sublist pattern x"
  shows "patch_udp_text content = (APPLIED, Some (join_with (robust_bind pattern) ss)) \<and>
     occurrences pattern content = length ss - 1 \<and>
     occurrences udp_marker (robust_bind pattern) = 1 \<and>
     occurrences udp_marker (join_with (robust_bind pattern) ss) = length ss - 1 \<and>
     (\<forall>body. \<exists>ss. ss \<noteq> [] \<and> body = join_with pattern ss \<and>
        (\<forall>x\<in>set ss. \<not> sublist pattern x) \<and> (sublist pattern body \<longrightarrow> 2 \<le> length ss))"
proof -
  have p: "pattern \<in> set udp_bind_patterns"
    using assms(1,2) by simp
  then have u: "unbordered pattern"
    using udp_patterns_unbordered by simp
  then have ne: "pattern \<noteq> []"
    by (simp add: unbordered_def)
  have ss: "ss \<noteq> []"
    using assms(6) by auto
  obtain s t ss' where ss': "ss = s # t # ss'"
    using assms(6) by (cases ss; cases "tl ss") auto
  then have "sublist pattern content"
    unfolding assms(5) by simp
  then have "udp_loop udp_bind_patterns content =
      Some (replace pattern (robust_bind pattern) content)"
    using udp_loop_first [OF assms(1)] assms(2,3) by simp
  moreover have "replace pattern (robust_bind pattern) content =
      join_with (robust_bind pattern) ss"
    unfolding assms(5) using replace_join_with [OF u ss assms(7)] .
  ultimately have 1: "patch_udp_text content =
      (APPLIED, Some (join_with (robust_bind pattern) ss))"
    using assms(4) by (simp add: patch_udp_text_def)
  have 2: "occurrences pattern content = length ss - 1"
    unfolding assms(5)
    using occurrences_join_with [OF u _ occurrences_self [OF u] ss assms(7)] by simp
  have "\<not> sublist udp_marker x" if "x \<in> set ss" for x
  proof -
    from that have "sublist x content"
      unfolding assms(5) by (rule sublist_join_with)
    with assms(4) show ?thesis
      using sublist_order.order.trans by blast
  qed
  then have 3: "occurrences udp_marker (join_with (robust_bind pattern) ss) = length ss - 1"
    using occurrences_join_with [OF udp_marker_unbordered udp_marker_prefix
        robust_bind_marker [OF p] ss] by simp
  show ?thesis
    using 1 2 3 robust_bind_marker_once [OF p] segments_exist [OF ne] by simp
qed

theorem udp_patch_first_variant_witness:
  "\<not> sublist (udp_bind_patterns ! 0) (join_with (udp_bind_patterns ! 1) fixture_udp_pieces) \<and>
   sublist (udp_bind_patterns ! 3) (fixture_udp_pieces ! 1) \<and>
   patch_udp_text (join_with (udp_bind_patterns ! 1) fixture_udp_pieces) =
     (APPLIED, Some (join_with (robust_bind (udp_bind_patterns ! 1)) fixture_udp_pieces)) \<and>
   occurrences (udp_bind_patterns ! 1) (join_with (udp_bind_patterns ! 1) fixture_udp_pieces) = 2 \<and>
   occurrences udp_marker
     (join_with (robust_bind (udp_bind_patterns ! 1)) fixture_udp_pieces) = 2"
proof -
  let ?content = "join_with (udp_bind_patterns ! 1) fixture_udp_pieces"
  have first: "\<not> sublist (udp_bind_patterns ! 0) ?content"
    and later: "sublist (udp_bind_patterns ! 3) (fixture_udp_pieces ! 1)"
    and pieces: "\<forall>x\<in>set fixture_udp_pieces. \<not> sublist (udp_bind_patterns ! 1) x"
    and marker: "\<not> sublist udp_marker ?content"
    by (simp_all add: udp_bind_patterns_def fixture_udp_pieces_def udp_marker_def py_eval)
  from first have before: "\<forall>j<1. \<not> sublist (udp_bind_patterns ! j) ?content"
    by simp
  have "(1::nat) < length udp_bind_patterns" and "2 \<le> length fixture_udp_pieces"
    by (simp_all add: udp_bind_patterns_def fixture_udp_pieces_def)
  from udp_patch_first_variant [OF this(1) refl before marker refl this(2) pieces] first later
  show ?thesis
    by (simp add: fixture_udp_pieces_def)
qed

section \<open>Restoring the backup\<close>











end
